theory Spec2Isabelle
  imports Main
begin

section \<open>Data model\<close>

text \<open>
  JSON values as Python's \<^verbatim>\<open>json\<close> module decodes them. A dict is an association list
  whose keys are distinct, in insertion order; numbers are integers (no claim below
  reads a float).
\<close>

datatype json =
    JNull
  | JBool bool
  | JNum int
  | JStr string
  | JArr "json list"
  | JObj "(string \<times> json) list"

text \<open>
  \<^verbatim>\<open>logs/summary_status.json\<close>, as \<^verbatim>\<open>_init_summary_status\<close> writes it. The file is
  modelled by \<open>summary_status option\<close>: \<open>None\<close> is a file that \<^verbatim>\<open>json.loads\<close> rejects
  (\<^verbatim>\<open>JSONDecodeError\<close>).
\<close>

record summary_status =
  ss_date :: string
  ss_pending :: "string list"
  ss_batched :: "string list"
  ss_completed :: "string list"
  ss_failed :: "string list"
  ss_posted :: "string list"

text \<open>
  An entry of the pending list in \<^verbatim>\<open>processing_queue.json\<close>. Item ids are strings
  (\<^verbatim>\<open>video_ids: List[str]\<close>), so a dict is kept as the value of its \<^verbatim>\<open>"id"\<close> key, if it
  has one, and its other keys in order. \<open>Bare\<close> is the legacy format, an id alone;
  \<open>Other\<close> is any JSON value that is neither a dict nor a string.
\<close>

datatype queue_item =
    Bare string
  | Video "string option" "(string \<times> json) list"
  | Other

text \<open>
  \<^verbatim>\<open>processing_queue.json\<close>: undecodable, a dict (the value of \<^verbatim>\<open>"pending"\<close> if the key is
  there, and the other keys), the legacy flat array, or some other JSON value. A
  \<^verbatim>\<open>"pending"\<close> value that is not a list is outside the model: no code path writes one.
\<close>

datatype queue_file =
    QUndecodable
  | QDict "queue_item list option" "(string \<times> json) list"
  | QList "queue_item list"
  | QOther

text \<open>
  A value of the \<^verbatim>\<open>"done"\<close> dict of \<^verbatim>\<open>seen_videos.json\<close>: the keys the code reads or writes,
  optional ones as options. Title, channel and tags are copied from the summary file as
  they are.
\<close>

record seen_entry =
  se_title :: json
  se_channel :: "json option"
  se_processed_at :: string
  se_status :: "string option"
  se_posted_to :: "string list option"
  se_posted_at :: "string option"
  se_tags :: "json option"

text \<open>\<^verbatim>\<open>logs/daily_log.json\<close>; \<open>dl_posted\<close> is the dict from platform to posted ids.\<close>

record daily_log =
  dl_date :: string
  dl_summarized :: "string list"
  dl_posted :: "(string \<times> string list) list"
  dl_errors :: "string list"
  dl_pending :: "string list"

text \<open>
  The persisted files. For the status file, the seen-videos file and the daily log \<open>None\<close>
  is a file that does not decode (for the daily log also a missing one).
  \<open>summaries_dir\<close> is the listing of \<^verbatim>\<open>summaries/\<close>: file name and decoded content
  (\<open>None\<close>: the file does not decode).
\<close>

record store =
  processing_queue_file :: queue_file
  summary_status_file :: "summary_status option"
  seen_videos_file :: "(string \<rightharpoonup> seen_entry) option"
  summaries_dir :: "(string \<times> json option) list"
  daily_log_file :: "daily_log option"

datatype py_error = KeyError | TypeError | AttributeError

section \<open>summary\_queue.py: the status file and the artifact store\<close>

definition MIN_BATCH_SIZE :: nat where
  "MIN_BATCH_SIZE = 2"

definition MAX_BATCH_SIZE :: nat where
  "MAX_BATCH_SIZE = 5"

text \<open>\<^verbatim>\<open>_init_summary_status\<close>: the default structure, dated today.\<close>

definition init_summary_status :: "string \<Rightarrow> summary_status" where
  "init_summary_status today =
     \<lparr> ss_date = today, ss_pending = [], ss_batched = [], ss_completed = [],
       ss_failed = [], ss_posted = [] \<rparr>"

text \<open>
  \<^verbatim>\<open>load_summary_status\<close>: returns the status and the file as the call leaves it. A
  stored date other than today, and an undecodable file, both rewrite the file with
  the default structure and return that.
\<close>

definition load_summary_status :: "string \<Rightarrow> store \<Rightarrow> summary_status \<times> store" where
  "load_summary_status today s =
     (case summary_status_file s of
        None \<Rightarrow>
          (init_summary_status today,
           s\<lparr>summary_status_file := Some (init_summary_status today)\<rparr>)
      | Some data \<Rightarrow>
          if ss_date data \<noteq> today
          then (init_summary_status today,
                s\<lparr>summary_status_file := Some (init_summary_status today)\<rparr>)
          else (data, s))"

definition save_summary_status :: "summary_status \<Rightarrow> store \<Rightarrow> store" where
  "save_summary_status status s = s\<lparr>summary_status_file := Some status\<rparr>"

text \<open>
  \<^verbatim>\<open>str.isalnum\<close> on one character, for ASCII. (Beyond ASCII Python asks the Unicode
  tables; nothing below depends on which characters are kept.)
\<close>

definition isalnum :: "char \<Rightarrow> bool" where
  "isalnum c =
     (let n = (of_char c :: nat)
      in (48 \<le> n \<and> n \<le> 57) \<or> (65 \<le> n \<and> n \<le> 90) \<or> (97 \<le> n \<and> n \<le> 122))"

text \<open>
  The artifact's file name in \<^verbatim>\<open>process_batch\<close>:
  \<^verbatim>\<open>f"{video_id}_{''.join(c if c.isalnum() else '_' for c in channel)}.json"\<close>.
\<close>

definition sanitize_channel :: "string \<Rightarrow> string" where
  "sanitize_channel channel = map (\<lambda>c. if isalnum c then c else CHR ''_'') channel"

definition summary_filename :: "string \<Rightarrow> string \<Rightarrow> string" where
  "summary_filename video_id channel =
     video_id @ ''_'' @ sanitize_channel channel @ ''.json''"

text \<open>\<^verbatim>\<open>filename.split("_")[0]\<close>: the part before the first underscore.\<close>

definition split_first :: "string \<Rightarrow> string" where
  "split_first filename = takeWhile (\<lambda>c. c \<noteq> CHR ''_'') filename"

definition endswith :: "string \<Rightarrow> string \<Rightarrow> bool" where
  "endswith name suffix =
     (length suffix \<le> length name \<and> drop (length name - length suffix) name = suffix)"

text \<open>
  \<^verbatim>\<open>get_summary_files\<close>: every \<^verbatim>\<open>*.json\<close> file of the directory with the id read off
  its name; a file whose name starts with an underscore (empty id) is left out.
\<close>

definition get_summary_files :: "store \<Rightarrow> (string \<times> string) list" where
  "get_summary_files s =
     map (\<lambda>name. (split_first name, name))
       (filter (\<lambda>name. endswith name ''.json'' \<and> split_first name \<noteq> [])
          (map fst (summaries_dir s)))"

text \<open>
  \<^verbatim>\<open>get_unposted_summaries\<close>: the summary files whose id is not in the status file's
  \<^verbatim>\<open>posted\<close> list.
\<close>

definition get_unposted_summaries :: "string \<Rightarrow> store \<Rightarrow> (string \<times> string) list \<times> store" where
  "get_unposted_summaries today s =
     (let all_summaries = get_summary_files s;
          (status, s') = load_summary_status today s;
          posted_ids = ss_posted status
      in (filter (\<lambda>(vid_id, path). vid_id \<notin> set posted_ids) all_summaries, s'))"

text \<open>
  \<^verbatim>\<open>load_processing_queue\<close>: the pending list; the legacy flat array is normalised
  (an id alone becomes a minimal record), anything else gives the empty list. \<open>now\<close> is
  \<^verbatim>\<open>datetime.now().isoformat()\<close>.
\<close>

fun normalize_legacy :: "string \<Rightarrow> queue_item \<Rightarrow> queue_item" where
  "normalize_legacy now (Bare item) =
     Video (Some item)
       [(''title'', JStr (''Video '' @ item)), (''channel'', JStr ''Unknown''),
        (''found_at'', JStr now)]"
| "normalize_legacy now item = item"

definition load_processing_queue :: "string \<Rightarrow> store \<Rightarrow> queue_item list" where
  "load_processing_queue now s =
     (case processing_queue_file s of
        QUndecodable \<Rightarrow> []
      | QDict None rest \<Rightarrow> []
      | QDict (Some pending) rest \<Rightarrow> pending
      | QList data \<Rightarrow> map (normalize_legacy now) data
      | QOther \<Rightarrow> [])"

definition save_processing_queue :: "queue_item list \<Rightarrow> store \<Rightarrow> store" where
  "save_processing_queue queue s = s\<lparr>processing_queue_file := QDict (Some queue) []\<rparr>"

definition ready_for_batch :: "string \<Rightarrow> store \<Rightarrow> bool" where
  "ready_for_batch now s = (length (load_processing_queue now s) \<ge> MIN_BATCH_SIZE)"

text \<open>\<^verbatim>\<open>item.get(key, default)\<close> on the keys of a dict.\<close>

definition get_default :: "(string \<times> json) list \<Rightarrow> string \<Rightarrow> json \<Rightarrow> json" where
  "get_default item k d = (case map_of item k of None \<Rightarrow> d | Some v \<Rightarrow> v)"

text \<open>
  The loop body of \<^verbatim>\<open>get_next_batch\<close>: a dict with an id is copied with its defaults
  filled in and its other keys appended, an id alone becomes a record, anything else
  is skipped (the result is the list of items appended to the batch: one or none).
\<close>

fun normalize_item :: "string \<Rightarrow> queue_item \<Rightarrow> queue_item list" where
  "normalize_item now (Video (Some i) item) =
     [Video (Some i)
        ([(''channel'', get_default item ''channel'' (JStr ''Unknown'')),
          (''title'', get_default item ''title'' (JStr (''Video '' @ i))),
          (''text'', get_default item ''text'' (JStr [])),
          (''found_at'', get_default item ''found_at'' (JStr now))]
         @ filter (\<lambda>(k, v). k \<notin> {''channel'', ''title'', ''text'', ''found_at''}) item)]"
| "normalize_item now (Bare item) =
     [Video (Some item)
        [(''channel'', JStr ''Unknown''), (''title'', JStr (''Video '' @ item)),
         (''text'', JStr []), (''found_at'', JStr now)]]"
| "normalize_item now item = []"

text \<open>
  \<^verbatim>\<open>get_next_batch\<close>: reads the queue and returns the batch. It writes no file: the
  store it returns is the store it was given.
\<close>

definition get_next_batch :: "string \<Rightarrow> store \<Rightarrow> queue_item list \<times> store" where
  "get_next_batch now s =
     (let queue = load_processing_queue now s
      in if length queue < MIN_BATCH_SIZE then ([], s)
         else (let batch_size = min MAX_BATCH_SIZE (length queue);
                   raw_batch = take batch_size queue
               in (concat (map (normalize_item now) raw_batch), s)))"

text \<open>\<^verbatim>\<open>item["id"]\<close>: raises on an item that has no id.\<close>

fun item_id :: "queue_item \<Rightarrow> py_error + string" where
  "item_id (Video (Some i) item) = Inr i"
| "item_id (Video None item) = Inl KeyError"
| "item_id item = Inl TypeError"

fun item_ids :: "queue_item list \<Rightarrow> py_error + string list" where
  "item_ids [] = Inr []"
| "item_ids (item # batch) =
     (case item_id item of
        Inl e \<Rightarrow> Inl e
      | Inr i \<Rightarrow> (case item_ids batch of Inl e \<Rightarrow> Inl e | Inr ids \<Rightarrow> Inr (i # ids)))"

text \<open>
  \<^verbatim>\<open>mark_as_batched\<close>: adds the batch's ids to the status file's \<^verbatim>\<open>batched\<close> list, without
  duplicates. (\<^verbatim>\<open>list(set(...))\<close> leaves the order open; the model keeps one order, and
  nothing proved below reads it.) The queue file is not touched.
\<close>

definition mark_as_batched :: "string \<Rightarrow> queue_item list \<Rightarrow> store \<Rightarrow> py_error + store" where
  "mark_as_batched today batch s =
     (let (status, s1) = load_summary_status today s
      in case item_ids batch of
           Inl e \<Rightarrow> Inl e
         | Inr batch_ids \<Rightarrow>
             Inr (save_summary_status
                    (status\<lparr>ss_batched := remdups (ss_batched status @ batch_ids)\<rparr>) s1))"

section \<open>queue\_manager\_module.py\<close>

text \<open>
  The generator in \<^verbatim>\<open>any(v.get("id") == video_id for v in pending)\<close>: it stops at the
  first entry with the id, and raises at an entry that is not a dict.
\<close>

fun any_id_equals :: "string \<Rightarrow> queue_item list \<Rightarrow> py_error + bool" where
  "any_id_equals video_id [] = Inr False"
| "any_id_equals video_id (Video i item # pending) =
     (if i = Some video_id then Inr True else any_id_equals video_id pending)"
| "any_id_equals video_id (v # pending) = Inl AttributeError"

text \<open>
  \<^verbatim>\<open>add_to_pending\<close>: the result and the store it leaves. Every exception is caught and
  gives \<open>False\<close> with no file written. Only the queue file is read.
\<close>

definition add_to_pending :: "queue_item \<Rightarrow> store \<Rightarrow> bool \<times> store" where
  "add_to_pending video s =
     (case processing_queue_file s of
        QDict p rest \<Rightarrow>
          (let pending = (case p of None \<Rightarrow> [] | Some xs \<Rightarrow> xs)
           in case item_id video of
                Inl e \<Rightarrow> (False, s)
              | Inr video_id \<Rightarrow>
                  (case any_id_equals video_id pending of
                     Inl e \<Rightarrow> (False, s)
                   | Inr True \<Rightarrow> (False, s)
                   | Inr False \<Rightarrow>
                       (True, s\<lparr>processing_queue_file := QDict (Some (pending @ [video])) rest\<rparr>)))
      | _ \<Rightarrow> (False, s))"

text \<open>
  For stating the queue properties: the id a pending entry stands for (none for a dict
  without \<^verbatim>\<open>"id"\<close> and for a value that is neither a dict nor a string), whether an
  entry is a dict, and how often an id occurs in a pending list.
\<close>

fun entry_id :: "queue_item \<Rightarrow> string option" where
  "entry_id (Video i item) = i"
| "entry_id (Bare i) = Some i"
| "entry_id Other = None"

fun is_dict :: "queue_item \<Rightarrow> bool" where
  "is_dict (Video i item) = True"
| "is_dict v = False"

definition occurrences :: "string \<Rightarrow> queue_item list \<Rightarrow> nat" where
  "occurrences video_id pending = length (filter (\<lambda>v. entry_id v = Some video_id) pending)"

text \<open>The pending list as the queue file holds it (empty when the file has none).\<close>

definition pending_of :: "store \<Rightarrow> queue_item list" where
  "pending_of s =
     (case processing_queue_file s of
        QDict (Some pending) rest \<Rightarrow> pending
      | QList data \<Rightarrow> data
      | _ \<Rightarrow> [])"

text \<open>Whether the queue file decodes to a dict.\<close>

fun is_queue_dict :: "queue_file \<Rightarrow> bool" where
  "is_queue_dict (QDict p rest) = True"
| "is_queue_dict qfile = False"

section \<open>summary\_queue.py: marking items posted\<close>

text \<open>\<^verbatim>\<open>load_seen_videos\<close> (the empty dict for an undecodable file) and \<^verbatim>\<open>save_seen_videos\<close>.\<close>

definition load_seen_videos :: "store \<Rightarrow> (string \<rightharpoonup> seen_entry)" where
  "load_seen_videos s = (case seen_videos_file s of None \<Rightarrow> Map.empty | Some done \<Rightarrow> done)"

definition save_seen_videos :: "(string \<rightharpoonup> seen_entry) \<Rightarrow> store \<Rightarrow> store" where
  "save_seen_videos videos s = s\<lparr>seen_videos_file := Some videos\<rparr>"

definition startswith :: "string \<Rightarrow> string \<Rightarrow> bool" where
  "startswith name pre = (take (length pre) name = pre)"

text \<open>
  \<^verbatim>\<open>SUMMARIES_DIR.glob(f"{video_id}_*.json")\<close>: the names that start with the id and an
  underscore and end in \<^verbatim>\<open>.json\<close>, in the order of the listing. (Ids are taken to be
  free of glob metacharacters.)
\<close>

definition glob_summaries :: "string \<Rightarrow> store \<Rightarrow> string list" where
  "glob_summaries video_id s =
     filter (\<lambda>name. startswith name (video_id @ ''_'') \<and> endswith name ''.json''
                    \<and> length video_id + 6 \<le> length name)
       (map fst (summaries_dir s))"

text \<open>The entry written when no summary can be read.\<close>

definition basic_entry :: "string \<Rightarrow> string \<Rightarrow> string \<Rightarrow> seen_entry" where
  "basic_entry now video_id status_type =
     \<lparr> se_title = JStr (''Video '' @ video_id), se_channel = None, se_processed_at = now,
       se_status = Some status_type, se_posted_to = None, se_posted_at = None,
       se_tags = None \<rparr>"

text \<open>
  The entry \<^verbatim>\<open>_update_seen_videos\<close> builds for one id: from the first matching summary
  file if it decodes to a dict (tags only when they are a non-empty list), the basic
  entry otherwise. Either way it is a fresh dict: it has no \<^verbatim>\<open>posted_to\<close> and no
  \<^verbatim>\<open>posted_at\<close> key.
\<close>

definition new_seen_entry :: "string \<Rightarrow> string \<Rightarrow> string \<Rightarrow> store \<Rightarrow> seen_entry" where
  "new_seen_entry now video_id status_type s =
     (case glob_summaries video_id s of
        [] \<Rightarrow> basic_entry now video_id status_type
      | name # names \<Rightarrow>
          (case map_of (summaries_dir s) name of
             Some (Some (JObj summary)) \<Rightarrow>
               \<lparr> se_title = get_default summary ''title'' (JStr (''Video '' @ video_id)),
                 se_channel = Some (get_default summary ''podcaster'' (JStr ''Unknown'')),
                 se_processed_at = now,
                 se_status = Some status_type,
                 se_posted_to = None,
                 se_posted_at = None,
                 se_tags = (case map_of summary ''tags'' of
                              Some (JArr (t # ts)) \<Rightarrow> Some (JArr (t # ts))
                            | _ \<Rightarrow> None) \<rparr>
           | _ \<Rightarrow> basic_entry now video_id status_type))"

text \<open>
  \<^verbatim>\<open>_update_seen_videos\<close>: every id's entry is replaced by its new entry, and the file
  is saved.
\<close>

definition update_seen_videos :: "string \<Rightarrow> string list \<Rightarrow> string \<Rightarrow> store \<Rightarrow> store" where
  "update_seen_videos now video_ids status_type s =
     save_seen_videos
       (foldl (\<lambda>seen_videos video_id.
                 seen_videos(video_id \<mapsto> new_seen_entry now video_id status_type s))
          (load_seen_videos s) video_ids)
       s"

text \<open>
  \<^verbatim>\<open>mark_as_posted\<close>: appends the ids that are not yet in the status file's \<^verbatim>\<open>posted\<close>
  list, saves it, and updates the seen-videos file with status \<^verbatim>\<open>"posted"\<close>.
\<close>

definition mark_as_posted :: "string \<Rightarrow> string \<Rightarrow> string list \<Rightarrow> store \<Rightarrow> store" where
  "mark_as_posted today now video_ids s =
     (let (status, s1) = load_summary_status today s;
          posted = foldl (\<lambda>posted vid_id. if vid_id \<notin> set posted then posted @ [vid_id] else posted)
                     (ss_posted status) video_ids;
          s2 = save_summary_status (status\<lparr>ss_posted := posted\<rparr>) s1
      in update_seen_videos now video_ids ''posted'' s2)"

section \<open>post\_scheduler\_integration.py\<close>

definition PLATFORMS :: "string list" where
  "PLATFORMS = [''twitter'', ''facebook'', ''telegram'']"

text \<open>The fresh daily log of \<^verbatim>\<open>_init_daily_log\<close>, and \<^verbatim>\<open>_init_daily_log\<close> itself.\<close>

definition new_daily_log :: "string \<Rightarrow> daily_log" where
  "new_daily_log today =
     \<lparr> dl_date = today, dl_summarized = [], dl_posted = [], dl_errors = [], dl_pending = [] \<rparr>"

definition init_daily_log :: "string \<Rightarrow> store \<Rightarrow> store" where
  "init_daily_log today s =
     (case daily_log_file s of
        Some data \<Rightarrow>
          if dl_date data = today then s
          else s\<lparr>daily_log_file := Some (new_daily_log today)\<rparr>
      | None \<Rightarrow> s\<lparr>daily_log_file := Some (new_daily_log today)\<rparr>)"

text \<open>Assignment to a key of a dict: in place, or appended when the key is new.\<close>

fun dict_set :: "string \<Rightarrow> 'v \<Rightarrow> (string \<times> 'v) list \<Rightarrow> (string \<times> 'v) list" where
  "dict_set k v [] = [(k, v)]"
| "dict_set k v ((k', v') # d) = (if k = k' then (k, v) # d else (k', v') # dict_set k v d)"

text \<open>
  \<^verbatim>\<open>_update_daily_log("posted", items)\<close>: the branch for the key \<^verbatim>\<open>"posted"\<close>. A log that
  cannot be read raises, which is caught: nothing is written. A log of another date is
  first replaced by a fresh one. Then every platform's ids are added, without
  duplicates. (\<^verbatim>\<open>list(set(...))\<close> leaves the order of a platform's list open; the
  model keeps one order, and nothing proved below reads the order of a list of more
  than one id.)
\<close>

definition add_posted :: "(string \<times> string list) list \<Rightarrow> string \<times> string list
    \<Rightarrow> (string \<times> string list) list" where
  "add_posted posted item =
     (case item of (platform, ids) \<Rightarrow>
        dict_set platform
          (remdups ((case map_of posted platform of None \<Rightarrow> [] | Some old \<Rightarrow> old) @ ids))
          posted)"

definition update_daily_log_posted :: "string \<Rightarrow> (string \<times> string list) list \<Rightarrow> store \<Rightarrow> store" where
  "update_daily_log_posted today items s =
     (case daily_log_file s of
        None \<Rightarrow> s
      | Some data \<Rightarrow>
          (let log_data = (if dl_date data \<noteq> today then new_daily_log today else data)
           in s\<lparr>daily_log_file :=
                  Some (log_data\<lparr>dl_posted := foldl add_posted (dl_posted log_data) items\<rparr>)\<rparr>))"

text \<open>\<^verbatim>\<open>_get_posted_videos\<close>: the daily log's \<^verbatim>\<open>posted\<close> dict; empty when the log cannot be read.\<close>

definition get_posted_videos :: "store \<Rightarrow> (string \<times> string list) list" where
  "get_posted_videos s = (case daily_log_file s of None \<Rightarrow> [] | Some data \<Rightarrow> dl_posted data)"

text \<open>\<^verbatim>\<open>_should_post_to_platform\<close>.\<close>

definition should_post_to_platform :: "store \<Rightarrow> string \<Rightarrow> string \<Rightarrow> bool \<Rightarrow> bool" where
  "should_post_to_platform s video_id platform force_all =
     (if force_all then True
      else (let posted = get_posted_videos s;
                platform_posts = (case map_of posted platform of None \<Rightarrow> [] | Some ids \<Rightarrow> ids)
            in video_id \<notin> set platform_posts))"

text \<open>
  \<^verbatim>\<open>_update_queue_manager_status\<close>, first loop: the platforms on which the item was
  posted in this cycle, and the update of one seen-videos entry (none when the item has
  no entry). (\<^verbatim>\<open>list(set(...))\<close> leaves the order of \<open>posted_to\<close> open; the model keeps
  the order of first occurrence.)
\<close>

definition successful_platforms :: "(string \<times> string list) list \<Rightarrow> string \<Rightarrow> string list" where
  "successful_platforms posted_by_platform video_id =
     map fst (filter (\<lambda>(platform, ids). video_id \<in> set ids) posted_by_platform)"

definition record_posting :: "string \<Rightarrow> (string \<times> string list) list
    \<Rightarrow> (string \<rightharpoonup> seen_entry) \<Rightarrow> string \<times> string set \<Rightarrow> (string \<rightharpoonup> seen_entry)" where
  "record_posting now posted_by_platform seen_videos attempt =
     (case attempt of (video_id, attempted_platforms) \<Rightarrow>
        (case seen_videos video_id of
           None \<Rightarrow> seen_videos
         | Some entry \<Rightarrow>
             (let successful = successful_platforms posted_by_platform video_id;
                  posted_to = (case se_posted_to entry of None \<Rightarrow> [] | Some ps \<Rightarrow> ps);
                  entry1 = entry\<lparr>se_posted_to := Some (remdups (posted_to @ successful))\<rparr>;
                  entry2 = (if successful \<noteq> []
                            then entry1\<lparr>se_status := Some ''posted'', se_posted_at := Some now\<rparr>
                            else entry1)
              in seen_videos(video_id \<mapsto> entry2))))"

text \<open>
  Second loop: the items that were attempted on every platform and posted on at least
  one.
\<close>

definition fully_processed :: "string list \<Rightarrow> (string \<times> string list) list
    \<Rightarrow> (string \<times> string set) list \<Rightarrow> string list" where
  "fully_processed platforms posted_by_platform attempts_by_video =
     map fst
       (filter (\<lambda>(video_id, attempted_platforms).
                  list_all (\<lambda>platform. platform \<in> attempted_platforms) platforms
                  \<and> list_ex (\<lambda>ids. video_id \<in> set ids) (map snd posted_by_platform))
          attempts_by_video)"

text \<open>
  \<^verbatim>\<open>_update_queue_manager_status\<close>. \<open>platforms\<close> is the global \<^verbatim>\<open>PLATFORMS\<close>, which
  \<^verbatim>\<open>main\<close> may narrow; \<open>attempts_by_video\<close> and \<open>posted_by_platform\<close> are dicts, in
  insertion order.
\<close>

definition update_queue_manager_status :: "string \<Rightarrow> string \<Rightarrow> string list
    \<Rightarrow> (string \<times> string list) list \<Rightarrow> (string \<times> string set) list \<Rightarrow> store \<Rightarrow> store" where
  "update_queue_manager_status today now platforms posted_by_platform attempts_by_video s =
     (let seen_videos = foldl (record_posting now posted_by_platform)
                          (load_seen_videos s) attempts_by_video;
          s1 = save_seen_videos seen_videos s;
          fully = fully_processed platforms posted_by_platform attempts_by_video
      in if fully \<noteq> [] then mark_as_posted today now fully s1 else s1)"

text \<open>
  For stating the delivery properties: whether the Ledger record of an item
  (\<^verbatim>\<open>seen_videos.json\<close>, \<^verbatim>\<open>done[id]\<close>) has the status \<^verbatim>\<open>"posted"\<close>, and whether some
  platform's list of posted ids of the cycle holds the item.
\<close>

definition ledger_posted :: "store \<Rightarrow> string \<Rightarrow> bool" where
  "ledger_posted s video_id =
     (case load_seen_videos s video_id of
        None \<Rightarrow> False
      | Some entry \<Rightarrow> se_status entry = Some ''posted'')"

definition posted_somewhere :: "(string \<times> string list) list \<Rightarrow> string \<Rightarrow> bool" where
  "posted_somewhere posted_by_platform video_id =
     list_ex (\<lambda>ids. video_id \<in> set ids) (map snd posted_by_platform)"

section \<open>improved\_summarize\_two\_video\_batch.py: validation\<close>

definition REQUIRED_FIELDS :: "string list" where
  "REQUIRED_FIELDS =
     [''essence'', ''top_takeaways'', ''game_changing_ideas'', ''things_you_can_do'',
      ''why_this_matters'']"

text \<open>\<^verbatim>\<open>sub in s\<close> on strings: \<open>sub\<close> occurs in \<open>s\<close> as a contiguous run.\<close>

fun contains :: "string \<Rightarrow> string \<Rightarrow> bool" where
  "contains [] sub = (sub = [])"
| "contains (c # cs) sub = (startswith (c # cs) sub \<or> contains cs sub)"

text \<open>
  \<^verbatim>\<open>field in x\<close> for a string \<open>field\<close>: a key of a dict, an element of a list, a
  substring of a string; on \<^verbatim>\<open>None\<close>, a bool or a number it raises \<^verbatim>\<open>TypeError\<close>.
\<close>

fun py_in :: "string \<Rightarrow> json \<Rightarrow> py_error + bool" where
  "py_in field (JObj d) = Inr (map_of d field \<noteq> None)"
| "py_in field (JArr xs) = Inr (JStr field \<in> set xs)"
| "py_in field (JStr s) = Inr (contains s field)"
| "py_in field x = Inl TypeError"

text \<open>
  \<^verbatim>\<open>x[field]\<close> for a string \<open>field\<close>: the value of a dict (\<^verbatim>\<open>KeyError\<close> without the key),
  \<^verbatim>\<open>TypeError\<close> on everything else.
\<close>

fun py_getitem :: "json \<Rightarrow> string \<Rightarrow> py_error + json" where
  "py_getitem (JObj d) field = (case map_of d field of None \<Rightarrow> Inl KeyError | Some v \<Rightarrow> Inr v)"
| "py_getitem x field = Inl TypeError"

fun is_list :: "json \<Rightarrow> bool" where
  "is_list (JArr xs) = True"
| "is_list x = False"

text \<open>
  The loops \<^verbatim>\<open>for field in ...: if field not in x: errors.append(f"Missing field: {field}")\<close>.
\<close>

fun missing_fields :: "string list \<Rightarrow> json \<Rightarrow> py_error + string list" where
  "missing_fields [] x = Inr []"
| "missing_fields (field # names) x =
     (case py_in field x of
        Inl e \<Rightarrow> Inl e
      | Inr present \<Rightarrow>
          (case missing_fields names x of
             Inl e \<Rightarrow> Inl e
           | Inr errors \<Rightarrow>
               Inr ((if present then [] else [''Missing field: '' @ field]) @ errors)))"

text \<open>
  The loop \<^verbatim>\<open>if field in summary_section and not isinstance(summary_section[field], list)\<close>.
\<close>

fun not_list_fields :: "string list \<Rightarrow> json \<Rightarrow> py_error + string list" where
  "not_list_fields [] x = Inr []"
| "not_list_fields (field # names) x =
     (case py_in field x of
        Inl e \<Rightarrow> Inl e
      | Inr False \<Rightarrow> not_list_fields names x
      | Inr True \<Rightarrow>
          (case py_getitem x field of
             Inl e \<Rightarrow> Inl e
           | Inr v \<Rightarrow>
               (case not_list_fields names x of
                  Inl e \<Rightarrow> Inl e
                | Inr errors \<Rightarrow>
                    Inr ((if is_list v then [] else [''Field '' @ field @ '' is not a list''])
                         @ errors))))"

text \<open>
  \<^verbatim>\<open>validate_summary\<close>: the list of errors, or the exception it raises. (\<open>video_id\<close> is
  only logged.)
\<close>

definition validate_summary :: "json \<Rightarrow> string \<Rightarrow> py_error + string list" where
  "validate_summary summary video_id =
     (case missing_fields [''title'', ''podcaster''] summary of
        Inl e \<Rightarrow> Inl e
      | Inr errors1 \<Rightarrow>
          (case py_in ''summary'' summary of
             Inl e \<Rightarrow> Inl e
           | Inr False \<Rightarrow> Inr (errors1 @ [''Missing summary section''])
           | Inr True \<Rightarrow>
               (case py_getitem summary ''summary'' of
                  Inl e \<Rightarrow> Inl e
                | Inr summary_section \<Rightarrow>
                    (case missing_fields REQUIRED_FIELDS summary_section of
                       Inl e \<Rightarrow> Inl e
                     | Inr errors2 \<Rightarrow>
                         (case not_list_fields
                                 [''top_takeaways'', ''game_changing_ideas'', ''things_you_can_do'']
                                 summary_section of
                            Inl e \<Rightarrow> Inl e
                          | Inr errors3 \<Rightarrow> Inr (errors1 @ errors2 @ errors3))))))"

text \<open>
  The requirement in the words of the specification: the record has all required
  top-level fields (title, source attribution, the nested summary object), the summary
  object has its five required sub-fields, and the fields that are to be ordered
  sequences are sequences.
\<close>

definition has_key :: "(string \<times> json) list \<Rightarrow> string \<Rightarrow> bool" where
  "has_key d k = (map_of d k \<noteq> None)"

definition is_sequence_at :: "(string \<times> json) list \<Rightarrow> string \<Rightarrow> bool" where
  "is_sequence_at d k = (case map_of d k of Some (JArr xs) \<Rightarrow> True | _ \<Rightarrow> False)"

definition well_formed_summary :: "json \<Rightarrow> bool" where
  "well_formed_summary r =
     (case r of
        JObj outer \<Rightarrow>
          has_key outer ''title'' \<and> has_key outer ''podcaster''
          \<and> (case map_of outer ''summary'' of
               Some (JObj sec) \<Rightarrow>
                 has_key sec ''essence'' \<and> has_key sec ''top_takeaways''
                 \<and> has_key sec ''game_changing_ideas''
                 \<and> has_key sec ''things_you_can_do''
                 \<and> has_key sec ''why_this_matters''
                 \<and> is_sequence_at sec ''top_takeaways''
                 \<and> is_sequence_at sec ''game_changing_ideas''
                 \<and> is_sequence_at sec ''things_you_can_do''
             | _ \<Rightarrow> False)
      | _ \<Rightarrow> False)"

section \<open>improved\_summarize\_two\_video\_batch.py: extraction\<close>

text \<open>
  \<^verbatim>\<open>json.loads\<close> belongs to Python's library, not to the repository: the functions below
  take it as the parameter \<open>loads\<close>, with \<open>None\<close> for \<^verbatim>\<open>JSONDecodeError\<close>.
\<close>

definition SENTINEL :: string where
  "SENTINEL = ''--- END OF SUMMARY ---''"

text \<open>
  Whitespace as \<^verbatim>\<open>str.strip\<close> and the pattern \<^verbatim>\<open>\s\<close> see it, among the code points below
  256.
\<close>

definition isspace :: "char \<Rightarrow> bool" where
  "isspace c = ((of_char c :: nat) \<in> {9, 10, 11, 12, 13, 28, 29, 30, 31, 32, 133, 160})"

definition strip :: "string \<Rightarrow> string" where
  "strip s = rev (dropWhile isspace (rev (dropWhile isspace s)))"

text \<open>
  \<^verbatim>\<open>text.split(sep)\<close> for a non-empty separator: \<open>cur\<close> is the part being read, \<open>skip\<close>
  the number of characters of a separator still to pass over.
\<close>

fun split_from :: "string \<Rightarrow> string \<Rightarrow> nat \<Rightarrow> string \<Rightarrow> string list" where
  "split_from sep cur skip [] = [cur]"
| "split_from sep cur skip (c # cs) =
     (if 0 < skip then split_from sep cur (skip - 1) cs
      else if sep \<noteq> [] \<and> startswith (c # cs) sep
           then cur # split_from sep [] (length sep - 1) cs
           else split_from sep (cur @ [c]) 0 cs)"

definition split :: "string \<Rightarrow> string \<Rightarrow> string list" where
  "split text sep = split_from sep [] 0 text"

text \<open>The loop over the parts between delimiters: each non-blank part that decodes.\<close>

definition delimiter_parts :: "(string \<Rightarrow> json option) \<Rightarrow> string \<Rightarrow> json list" where
  "delimiter_parts loads text =
     List.map_filter
       (\<lambda>part. let cleaned = strip part in if cleaned \<noteq> [] then loads cleaned else None)
       (split text SENTINEL)"

text \<open>
  The brace-count loop of \<^verbatim>\<open>extract_json_objects\<close>, with its variables as arguments.
\<close>

fun brace_count_scan :: "(string \<Rightarrow> json option) \<Rightarrow> string \<Rightarrow> string \<Rightarrow> int \<Rightarrow> bool
    \<Rightarrow> json list \<Rightarrow> json list" where
  "brace_count_scan loads [] current brace_count in_object results = results"
| "brace_count_scan loads (char # text) current brace_count in_object results =
     (if char = CHR ''{'' \<and> \<not> in_object
      then brace_count_scan loads text ''{'' 1 True results
      else if in_object
      then (if char = CHR ''{''
            then brace_count_scan loads text (current @ [char]) (brace_count + 1) True results
            else if char = CHR ''}''
            then (if brace_count - 1 = 0
                  then brace_count_scan loads text [] (brace_count - 1) False
                         (case loads (current @ [char]) of
                            Some obj \<Rightarrow> results @ [obj]
                          | None \<Rightarrow> results)
                  else brace_count_scan loads text (current @ [char]) (brace_count - 1) True
                         results)
            else brace_count_scan loads text (current @ [char]) brace_count True results)
      else brace_count_scan loads text current brace_count in_object results)"

text \<open>
  \<^verbatim>\<open>re.sub(r',\s*]', ']', s)\<close> and \<^verbatim>\<open>re.sub(r',\s*}', '}', s)\<close>: a comma, any whitespace
  and the closing bracket become the bracket. \<open>skip\<close> counts the characters of a match
  still to pass over.
\<close>

fun drop_trailing_commas :: "char \<Rightarrow> nat \<Rightarrow> string \<Rightarrow> string" where
  "drop_trailing_commas close skip [] = []"
| "drop_trailing_commas close skip (c # cs) =
     (if 0 < skip then drop_trailing_commas close (skip - 1) cs
      else if c = CHR '','' \<and> take 1 (dropWhile isspace cs) = [close]
           then close # drop_trailing_commas close (length (takeWhile isspace cs) + 1) cs
           else c # drop_trailing_commas close 0 cs)"

text \<open>
  \<^verbatim>\<open>re.sub(r'([{,])\s*([a-zA-Z0-9_]+)\s*:', r'\1"\2":', s)\<close>: after an opening brace or a
  comma, whitespace, a run of word characters, whitespace and a colon become the
  brace or comma, the run in double quotes, and the colon. The classes do not overlap,
  so the greedy match is the only one.
\<close>

definition is_word_char :: "char \<Rightarrow> bool" where
  "is_word_char c = (isalnum c \<or> c = CHR ''_'')"

fun quote_bare_keys :: "nat \<Rightarrow> string \<Rightarrow> string" where
  "quote_bare_keys skip [] = []"
| "quote_bare_keys skip (c # cs) =
     (if 0 < skip then quote_bare_keys (skip - 1) cs
      else (let after_space = dropWhile isspace cs;
                key = takeWhile is_word_char after_space;
                after_key = dropWhile isspace (dropWhile is_word_char after_space)
            in if (c = CHR ''{'' \<or> c = CHR '','') \<and> key \<noteq> [] \<and> take 1 after_key = '':''
               then c # CHR 0x22 # key @ CHR 0x22 # CHR '':''
                      # quote_bare_keys (length cs - length after_key + 1) cs
               else c # quote_bare_keys 0 cs))"

definition fix_common_json_errors :: "string \<Rightarrow> string" where
  "fix_common_json_errors json_str =
     quote_bare_keys 0
       (drop_trailing_commas (CHR ''}'') 0 (drop_trailing_commas (CHR '']'') 0 json_str))"

text \<open>The loop of \<^verbatim>\<open>parse_robust_json\<close>, with its variables as arguments.\<close>

fun robust_scan :: "(string \<Rightarrow> json option) \<Rightarrow> string \<Rightarrow> string \<Rightarrow> int \<Rightarrow> bool
    \<Rightarrow> json list \<Rightarrow> json list" where
  "robust_scan loads [] current_obj brace_count capturing results = results"
| "robust_scan loads (char # text) current_obj brace_count capturing results =
     (let starts = (char = CHR ''{'' \<and> brace_count = 0);
          current_obj1 = (if starts then [] else current_obj);
          capturing1 = (if starts then True else capturing);
          brace_count1 = (if char = CHR ''{'' then brace_count + 1 else brace_count);
          current_obj2 = (if capturing1 then current_obj1 @ [char] else current_obj1)
      in if char = CHR ''}''
         then (if brace_count1 - 1 = 0 \<and> capturing1
               then robust_scan loads text [] (brace_count1 - 1) False
                      (case loads (fix_common_json_errors current_obj2) of
                         Some obj \<Rightarrow> results @ [obj]
                       | None \<Rightarrow> results)
               else robust_scan loads text current_obj2 (brace_count1 - 1) capturing1 results)
         else robust_scan loads text current_obj2 brace_count1 capturing1 results)"

definition parse_robust_json :: "(string \<Rightarrow> json option) \<Rightarrow> string \<Rightarrow> json list" where
  "parse_robust_json loads text = robust_scan loads text [] 0 False []"

text \<open>
  \<^verbatim>\<open>extract_json_objects\<close>: the delimiter method when the delimiter is there and some
  part decodes; otherwise the brace count; and the robust parser only when the brace
  count found nothing.
\<close>

definition extract_json_objects :: "(string \<Rightarrow> json option) \<Rightarrow> string \<Rightarrow> json list" where
  "extract_json_objects loads text =
     (let results = (if contains text SENTINEL then delimiter_parts loads text else [])
      in if contains text SENTINEL \<and> results \<noteq> [] then results
         else (let results = brace_count_scan loads text [] 0 False results
               in if results = [] then parse_robust_json loads text else results))"

text \<open>
  The extraction steps of \<^verbatim>\<open>summarize_batch\<close> on the response text, for a batch of \<open>n\<close>
  items: \<^verbatim>\<open>extract_json_objects\<close>, and, when it did not find \<open>n\<close> objects, what
  \<^verbatim>\<open>parse_robust_json\<close> finds if that is more. (The \<^verbatim>\<open>video_url\<close> key that
  \<^verbatim>\<open>summarize_batch\<close> adds to each object is left out; the corrective call follows when
  fewer than \<open>n\<close> objects remain.)
\<close>

definition extract_for_batch :: "(string \<Rightarrow> json option) \<Rightarrow> nat \<Rightarrow> string \<Rightarrow> json list" where
  "extract_for_batch loads n raw_text =
     (let json_objects = extract_json_objects loads raw_text
      in if length json_objects \<noteq> n
         then (let fallback = parse_robust_json loads raw_text
               in if length fallback > length json_objects then fallback else json_objects)
         else json_objects)"

text \<open>
  For stating the extraction properties: \<open>closes d body\<close> says that \<open>body\<close>, read at
  brace depth \<open>d\<close>, ends with the brace that brings the depth to zero, and not before;
  so \<open>CHR ''{'' # body\<close> with \<open>closes 1 body\<close> is one balanced top-level span.
  \<open>brace_free\<close> text holds no brace at all.
\<close>

fun closes :: "nat \<Rightarrow> string \<Rightarrow> bool" where
  "closes d [] = False"
| "closes d (c # cs) =
     (if c = CHR ''{'' then closes (Suc d) cs
      else if c = CHR ''}'' then (if d = 1 then cs = [] else closes (d - 1) cs)
      else closes d cs)"

definition brace_free :: "string \<Rightarrow> bool" where
  "brace_free s = (CHR ''{'' \<notin> set s \<and> CHR ''}'' \<notin> set s)"

text \<open>The objects that decode among the given spans, in order.\<close>

definition decoded :: "(string \<Rightarrow> json option) \<Rightarrow> string list \<Rightarrow> json list" where
  "decoded loads spans = List.map_filter loads spans"

section \<open>improved\_summarize\_two\_video\_batch.py: the corrective call\<close>

definition MAX_RETRIES :: nat where
  "MAX_RETRIES = 3"

definition RETRY_DELAY :: nat where
  "RETRY_DELAY = 5"

text \<open>
  What the request of one attempt comes to. \<open>Raises\<close>: \<^verbatim>\<open>requests.post\<close> (or anything else
  inside the \<^verbatim>\<open>try\<close>) raises an \<^verbatim>\<open>Exception\<close>. \<open>Response status_code body\<close>: a response
  with that status code; \<open>body\<close> is \<^verbatim>\<open>data["content"][0]["text"]\<close>, or \<open>None\<close> when
  reading it raises. The API is outside the repository: \<open>api k\<close> is the outcome of the
  request made by the call with \<^verbatim>\<open>retry_count\<close> \<open>k\<close>.
\<close>

datatype api_result = Raises | Response nat "string option"

text \<open>
  The effects of the call: the two counters of \<^verbatim>\<open>STATS\<close>, and the requests sent and
  the calls of \<^verbatim>\<open>time.sleep\<close> (with their seconds) in the order they happen.
\<close>

datatype event = Request | Sleep nat

record fix_state =
  fixer_attempts :: nat
  fixer_successes :: nat
  trace :: "event list"

text \<open>
  \<^verbatim>\<open>call_claude_fix(raw_text, retry_count)\<close>. The result is a JSON value, \<open>JNull\<close> being
  Python's \<^verbatim>\<open>None\<close>. The recursive calls stand inside the \<^verbatim>\<open>try\<close>; they return a value
  and raise nothing, so the handler below them is not entered on their account.
\<close>

function call_claude_fix :: "(string \<Rightarrow> json option) \<Rightarrow> (nat \<Rightarrow> api_result) \<Rightarrow> string \<Rightarrow> nat
    \<Rightarrow> fix_state \<Rightarrow> json \<times> fix_state" where
  "call_claude_fix loads api raw_text retry_count st =
     (let st1 = st\<lparr>fixer_attempts := fixer_attempts st + 1\<rparr>;
          st2 = st1\<lparr>trace := trace st1 @ [Request]\<rparr>
      in case api retry_count of
           Raises \<Rightarrow>
             if retry_count < MAX_RETRIES - 1
             then call_claude_fix loads api raw_text (retry_count + 1)
                    (st2\<lparr>trace := trace st2 @ [Sleep RETRY_DELAY]\<rparr>)
             else (JNull, st2)
         | Response status_code body \<Rightarrow>
             if status_code \<noteq> 200
             then (if retry_count < MAX_RETRIES - 1
                   then call_claude_fix loads api raw_text (retry_count + 1)
                          (st2\<lparr>trace := trace st2 @ [Sleep RETRY_DELAY]\<rparr>)
                   else (JNull, st2))
             else (case body of
                     None \<Rightarrow>
                       if retry_count < MAX_RETRIES - 1
                       then call_claude_fix loads api raw_text (retry_count + 1)
                              (st2\<lparr>trace := trace st2 @ [Sleep RETRY_DELAY]\<rparr>)
                       else (JNull, st2)
                   | Some fixed_text \<Rightarrow>
                       (case loads fixed_text of
                          Some fixed_json \<Rightarrow>
                            (fixed_json, st2\<lparr>fixer_successes := fixer_successes st2 + 1\<rparr>)
                        | None \<Rightarrow>
                            (case extract_json_objects loads fixed_text of
                               obj # rest \<Rightarrow> (obj, st2)
                             | [] \<Rightarrow>
                                 if retry_count < MAX_RETRIES - 1
                                 then call_claude_fix loads api raw_text (retry_count + 1)
                                        (st2\<lparr>trace := trace st2 @ [Sleep RETRY_DELAY]\<rparr>)
                                 else (JNull, st2)))))"
  by pat_completeness auto

termination
  by (relation "measure (\<lambda>(loads, api, raw_text, retry_count, st). MAX_RETRIES - 1 - retry_count)")
    auto

text \<open>
  For stating the retry properties: an attempt fails when it ends in one of the three
  places where the code retries or gives up.
\<close>

definition attempt_fails :: "(string \<Rightarrow> json option) \<Rightarrow> api_result \<Rightarrow> bool" where
  "attempt_fails loads r =
     (case r of
        Raises \<Rightarrow> True
      | Response status_code body \<Rightarrow>
          status_code \<noteq> 200
          \<or> (case body of
                None \<Rightarrow> True
              | Some fixed_text \<Rightarrow>
                  loads fixed_text = None \<and> extract_json_objects loads fixed_text = []))"

text \<open>The requests and sleeps of \<open>n\<close> attempts in a row.\<close>

definition attempts_trace :: "nat \<Rightarrow> event list" where
  "attempts_trace n = Request # concat (replicate (n - 1) [Sleep RETRY_DELAY, Request])"

section \<open>Example states\<close>

text \<open>Concrete stores and items at which the properties below are evaluated.\<close>

definition video_a :: queue_item where
  "video_a = Video (Some ''a'') [(''title'', JStr ''A''), (''channel'', JStr ''Chan'')]"

definition video_b :: queue_item where
  "video_b = Video (Some ''b'') [(''title'', JStr ''B'')]"

definition entry_v1 :: seen_entry where
  "entry_v1 =
     \<lparr> se_title = JStr ''Video v1'', se_channel = None, se_processed_at = ''2025-05-01T10:00:00'',
       se_status = Some ''completed'', se_posted_to = None, se_posted_at = None,
       se_tags = None \<rparr>"

definition empty_store :: store where
  "empty_store =
     \<lparr> processing_queue_file = QDict (Some []) [],
       summary_status_file = Some (init_summary_status ''2025-05-01''),
       seen_videos_file = Some Map.empty,
       summaries_dir = [],
       daily_log_file = None \<rparr>"

text \<open>Two pending items, nothing batched.\<close>

definition store_two_pending :: store where
  "store_two_pending = empty_store\<lparr>processing_queue_file := QDict (Some [video_a, video_b]) []\<rparr>"

text \<open>One pending item: too few for a batch.\<close>

definition store_one_pending :: store where
  "store_one_pending = empty_store\<lparr>processing_queue_file := QDict (Some [video_a]) []\<rparr>"

text \<open>
  The same item in a legacy flat array (as \<^verbatim>\<open>improved_scheduler.py\<close> writes the queue
  file), and a queue file that does not decode.
\<close>

definition store_legacy_queue :: store where
  "store_legacy_queue = empty_store\<lparr>processing_queue_file := QList [video_a]\<rparr>"

definition store_undecodable_queue :: store where
  "store_undecodable_queue = empty_store\<lparr>processing_queue_file := QUndecodable\<rparr>"

text \<open>Item \<open>a\<close> is already done and batched; the pending list is empty.\<close>

definition store_a_done :: store where
  "store_a_done =
     empty_store\<lparr>
       summary_status_file :=
         Some ((init_summary_status ''2025-05-01'')\<lparr>ss_batched := [''a'']\<rparr>),
       seen_videos_file := Some [''a'' \<mapsto> entry_v1]\<rparr>"

text \<open>
  Item \<open>v1\<close> has been summarised on 2025-05-01: its artifact is in the store, its
  seen-videos entry says completed, nothing is posted yet, and the day's log is empty.
\<close>

definition summary_v1 :: json where
  "summary_v1 = JObj [(''title'', JStr ''Episode 1''), (''podcaster'', JStr ''Chan'')]"

definition store_v1_completed :: store where
  "store_v1_completed =
     \<lparr> processing_queue_file = QDict (Some []) [],
       summary_status_file =
         Some ((init_summary_status ''2025-05-01'')\<lparr>ss_completed := [''v1'']\<rparr>),
       seen_videos_file = Some [''v1'' \<mapsto> entry_v1],
       summaries_dir = [(''v1_Chan.json'', Some summary_v1)],
       daily_log_file = Some (new_daily_log ''2025-05-01'') \<rparr>"

text \<open>
  A first cycle in which twitter succeeds and the cycle is cut short before telegram
  (an exception while posting to facebook): what \<^verbatim>\<open>post_unposted_summaries\<close> passes
  to \<^verbatim>\<open>_update_queue_manager_status\<close> and then writes to the daily log.
\<close>

definition store_after_partial_cycle :: store where
  "store_after_partial_cycle =
     update_daily_log_posted ''2025-05-01'' [(''twitter'', [''v1''])]
       (update_queue_manager_status ''2025-05-01'' ''2025-05-01T12:00:00'' PLATFORMS
          [(''twitter'', [''v1'']), (''facebook'', []), (''telegram'', [])]
          [(''v1'', {''twitter'', ''facebook''})]
          store_v1_completed)"

text \<open>
  A first cycle in which twitter succeeds and the other two platforms are unreachable
  for the whole cycle (they count as attempted).
\<close>

definition store_after_full_cycle :: store where
  "store_after_full_cycle =
     update_daily_log_posted ''2025-05-01'' [(''twitter'', [''v1''])]
       (update_queue_manager_status ''2025-05-01'' ''2025-05-01T12:00:00'' PLATFORMS
          [(''twitter'', [''v1'']), (''facebook'', []), (''telegram'', [])]
          [(''v1'', {''twitter'', ''facebook'', ''telegram''})]
          store_v1_completed)"

text \<open>A summary with every required field, and the same without \<^verbatim>\<open>why_this_matters\<close>.\<close>

definition summary_complete :: json where
  "summary_complete =
     JObj [(''title'', JStr ''Episode 1''), (''podcaster'', JStr ''Chan''),
           (''summary'',
            JObj [(''essence'', JStr ''E''), (''top_takeaways'', JArr [JStr ''T'']),
                  (''game_changing_ideas'', JArr [JStr ''G'']),
                  (''things_you_can_do'', JArr [JStr ''D'']),
                  (''why_this_matters'', JStr ''W'')])]"

definition summary_without_why :: json where
  "summary_without_why =
     JObj [(''title'', JStr ''Episode 1''), (''podcaster'', JStr ''Chan''),
           (''summary'',
            JObj [(''essence'', JStr ''E''), (''top_takeaways'', JArr [JStr ''T'']),
                  (''game_changing_ideas'', JArr [JStr ''G'']),
                  (''things_you_can_do'', JArr [JStr ''D''])])]"

text \<open>
  A response without the delimiter that holds two balanced spans: the first is valid
  JSON, the second is valid but for the comma before its closing brace.
  \<open>json_loads_sample\<close> is \<^verbatim>\<open>json.loads\<close> on the strings that the extraction of this
  response hands to it: the first span and the second span without its comma decode;
  the second span as it stands, and the first span after the repairs (which put quotes
  around \<open>b\<close> inside its string), do not.
\<close>

definition two_span_text :: string where
  \<open>two_span_text = ''{"t": "a, b: c"} {"b": 2,}''\<close>

definition json_loads_sample :: "string \<Rightarrow> json option" where
  \<open>json_loads_sample s =
     (if s = ''{"t": "a, b: c"}'' then Some (JObj [(''t'', JStr ''a, b: c'')])
      else if s = ''{"b": 2}'' then Some (JObj [(''b'', JNum 2)])
      else None)\<close>

text \<open>
  For the corrective call: the counters at zero; an API that answers every request with
  status 500; and one whose first request raises and whose second answer holds valid
  JSON.
\<close>

definition fix_state_0 :: fix_state where
  "fix_state_0 = \<lparr> fixer_attempts = 0, fixer_successes = 0, trace = [] \<rparr>"

definition api_always_down :: "nat \<Rightarrow> api_result" where
  "api_always_down k = Response 500 None"

definition api_up_second :: "nat \<Rightarrow> api_result" where
  \<open>api_up_second k = (if k = 0 then Raises else Response 200 (Some ''{"b": 2}''))\<close>

section \<open>Properties\<close>

subsection \<open>Relocating an artifact by its id\<close>

lemma split_first_append:
  "CHR ''_'' \<notin> set video_id \<Longrightarrow> split_first (video_id @ CHR ''_'' # rest) = video_id"
  by (induction video_id) (auto simp: split_first_def)

lemma split_first_summary_filename:
  "CHR ''_'' \<notin> set video_id \<Longrightarrow> split_first (summary_filename video_id channel) = video_id"
  using split_first_append [of video_id "sanitize_channel channel @ ''.json''"]
  by (simp add: summary_filename_def)

text \<open>
  C9. The artifact of item \<open>ab_cd\<close> from channel \<open>My Channel\<close> is written to
  \<open>ab_cd_My_Channel.json\<close>; scanning the artifact store reads the id \<open>ab\<close> off that
  name, not \<open>ab_cd\<close>: an id that contains an underscore is not recovered.
\<close>

theorem summary_filename_id_with_underscore:
  "summary_filename ''ab_cd'' ''My Channel'' = ''ab_cd_My_Channel.json''
   \<and> split_first (summary_filename ''ab_cd'' ''My Channel'') = ''ab''
   \<and> get_summary_files \<lparr> processing_queue_file = QOther, summary_status_file = None,
        seen_videos_file = None,
        summaries_dir = [(summary_filename ''ab_cd'' ''My Channel'', None)],
        daily_log_file = None \<rparr>
       = [(''ab'', ''ab_cd_My_Channel.json'')]"
  by (simp add: summary_filename_def sanitize_channel_def isalnum_def split_first_def
      get_summary_files_def endswith_def)

subsection \<open>The status file across a date change\<close>

text \<open>
  C10. Loading a status file whose recorded date is not today returns, and leaves on
  disk, the default structure: pending, batched, completed, failed and posted are all
  empty. So after a date change no summary file is filtered out as posted.
\<close>

theorem load_summary_status_new_day:
  assumes "summary_status_file s = Some data" and "ss_date data \<noteq> today"
  shows "fst (load_summary_status today s) = init_summary_status today
    \<and> summary_status_file (snd (load_summary_status today s)) = Some (init_summary_status today)
    \<and> ss_pending (fst (load_summary_status today s)) = []
    \<and> ss_batched (fst (load_summary_status today s)) = []
    \<and> ss_completed (fst (load_summary_status today s)) = []
    \<and> ss_failed (fst (load_summary_status today s)) = []
    \<and> ss_posted (fst (load_summary_status today s)) = []
    \<and> fst (get_unposted_summaries today s) = get_summary_files s"
  using assms
  by (simp add: load_summary_status_def init_summary_status_def get_unposted_summaries_def)

theorem load_summary_status_new_day_witness:
  "fst (load_summary_status ''2025-05-02''
      \<lparr> processing_queue_file = QOther, summary_status_file = Some \<lparr> ss_date = ''2025-05-01'', ss_pending = [''p''],
           ss_batched = [''b''], ss_completed = [''c''], ss_failed = [''f''],
           ss_posted = [''v1''] \<rparr>,
        seen_videos_file = None,
        summaries_dir = [(''v1_Chan.json'', None)], daily_log_file = None \<rparr>) = init_summary_status ''2025-05-02''
   \<and> fst (get_unposted_summaries ''2025-05-02''
      \<lparr> processing_queue_file = QOther, summary_status_file = Some \<lparr> ss_date = ''2025-05-01'', ss_pending = [''p''],
           ss_batched = [''b''], ss_completed = [''c''], ss_failed = [''f''],
           ss_posted = [''v1''] \<rparr>,
        seen_videos_file = None,
        summaries_dir = [(''v1_Chan.json'', None)], daily_log_file = None \<rparr>) = [(''v1'', ''v1_Chan.json'')]"
  using load_summary_status_new_day [of
      "\<lparr> processing_queue_file = QOther, summary_status_file = Some \<lparr> ss_date = ''2025-05-01'', ss_pending = [''p''],
           ss_batched = [''b''], ss_completed = [''c''], ss_failed = [''f''],
           ss_posted = [''v1''] \<rparr>,
         seen_videos_file = None,
        summaries_dir = [(''v1_Chan.json'', None)], daily_log_file = None \<rparr>"
      "\<lparr> ss_date = ''2025-05-01'', ss_pending = [''p''],
           ss_batched = [''b''], ss_completed = [''c''], ss_failed = [''f''],
           ss_posted = [''v1''] \<rparr>"
      "''2025-05-02''"]
  by (simp add: get_summary_files_def endswith_def split_first_def)

subsection \<open>Drawing a batch\<close>

lemma item_ids_normalize:
  "item_ids (concat (map (normalize_item now) queue)) = Inr (List.map_filter entry_id queue)"
proof (induction queue)
  case Nil
  show ?case by (simp add: List.map_filter_simps)
next
  case (Cons v queue)
  show ?case
  proof (cases v)
    case (Bare i)
    with Cons show ?thesis by (simp add: List.map_filter_simps)
  next
    case (Video i item)
    with Cons show ?thesis by (cases i) (simp_all add: List.map_filter_simps)
  next
    case Other
    with Cons show ?thesis by (simp add: List.map_filter_simps)
  qed
qed

lemma length_normalize: "length (concat (map (normalize_item now) queue)) \<le> length queue"
proof (induction queue)
  case Nil
  show ?case by simp
next
  case (Cons v queue)
  have "length (normalize_item now v) \<le> 1"
    by (cases "(now, v)" rule: normalize_item.cases) simp_all
  with Cons show ?case by simp
qed

lemma take_min_length: "take (min n (length xs)) xs = take n xs"
  by (simp add: min_def)

lemma get_next_batch_fst:
  "fst (get_next_batch now s)
     = (if length (load_processing_queue now s) < MIN_BATCH_SIZE then []
        else concat (map (normalize_item now)
               (take MAX_BATCH_SIZE (load_processing_queue now s))))"
  by (simp add: get_next_batch_def Let_def take_min_length)

lemma load_summary_status_queue:
  "processing_queue_file (snd (load_summary_status today s)) = processing_queue_file s"
  by (simp add: load_summary_status_def split: option.splits)

text \<open>
  C3, as the code has it. \<^verbatim>\<open>get_next_batch\<close> returns the store it was given, so the
  pending list keeps every item. With fewer than \<open>MIN_BATCH_SIZE\<close> items the batch is
  empty; otherwise it holds the recognised entries among the first \<open>MAX_BATCH_SIZE\<close>
  of the queue, oldest first, hence at most five. \<^verbatim>\<open>mark_as_batched\<close> on that batch
  succeeds, adds exactly the batch's ids to the batched list and leaves the queue file
  as it was.
\<close>

theorem get_next_batch_reads_only:
  "snd (get_next_batch now s) = s
   \<and> (length (load_processing_queue now s) < MIN_BATCH_SIZE \<longrightarrow> fst (get_next_batch now s) = [])
   \<and> length (fst (get_next_batch now s)) \<le> MAX_BATCH_SIZE
   \<and> item_ids (fst (get_next_batch now s))
       = Inr (if length (load_processing_queue now s) < MIN_BATCH_SIZE then []
              else List.map_filter entry_id (take MAX_BATCH_SIZE (load_processing_queue now s)))
   \<and> (\<exists>s'. mark_as_batched today (fst (get_next_batch now s)) s = Inr s'
        \<and> processing_queue_file s' = processing_queue_file s
        \<and> (\<exists>status. summary_status_file s' = Some status
             \<and> set (ss_batched status)
               = set (ss_batched (fst (load_summary_status today s)))
                 \<union> (if length (load_processing_queue now s) < MIN_BATCH_SIZE then {}
                    else set (List.map_filter entry_id
                           (take MAX_BATCH_SIZE (load_processing_queue now s))))))"
proof -
  let ?queue = "load_processing_queue now s"
  let ?batch = "fst (get_next_batch now s)"
  let ?ids = "if length ?queue < MIN_BATCH_SIZE then []
              else List.map_filter entry_id (take MAX_BATCH_SIZE ?queue)"
  have unchanged: "snd (get_next_batch now s) = s"
    by (simp add: get_next_batch_def Let_def)
  have small: "length ?queue < MIN_BATCH_SIZE \<longrightarrow> ?batch = []"
    by (simp add: get_next_batch_def Let_def)
  have "length (concat (map (normalize_item now) (take MAX_BATCH_SIZE ?queue)))
          \<le> length (take MAX_BATCH_SIZE ?queue)"
    by (rule length_normalize)
  then have bound: "length ?batch \<le> MAX_BATCH_SIZE"
    by (simp add: get_next_batch_fst)
  have ids: "item_ids ?batch = Inr ?ids"
    by (simp add: get_next_batch_fst item_ids_normalize)
  obtain status s1 where load: "load_summary_status today s = (status, s1)"
    by (cases "load_summary_status today s")
  have q1: "processing_queue_file s1 = processing_queue_file s"
    using load_summary_status_queue [of today s] load by simp
  let ?s' = "save_summary_status (status\<lparr>ss_batched := remdups (ss_batched status @ ?ids)\<rparr>) s1"
  have marked: "mark_as_batched today ?batch s = Inr ?s'"
    using ids load by (simp add: mark_as_batched_def)
  have "processing_queue_file ?s' = processing_queue_file s"
    using q1 by (simp add: save_summary_status_def)
  moreover have "summary_status_file ?s'
      = Some (status\<lparr>ss_batched := remdups (ss_batched status @ ?ids)\<rparr>)"
    by (simp add: save_summary_status_def)
  moreover have "set (ss_batched (status\<lparr>ss_batched := remdups (ss_batched status @ ?ids)\<rparr>))
      = set (ss_batched (fst (load_summary_status today s)))
        \<union> (if length ?queue < MIN_BATCH_SIZE then {}
           else set (List.map_filter entry_id (take MAX_BATCH_SIZE ?queue)))"
    using load by simp
  ultimately show ?thesis
    using unchanged small bound ids marked by blast
qed

theorem get_next_batch_reads_only_witness:
  "length (load_processing_queue ''now'' store_one_pending) < MIN_BATCH_SIZE
   \<and> fst (get_next_batch ''now'' store_one_pending) = []
   \<and> snd (get_next_batch ''now'' store_one_pending) = store_one_pending"
  using get_next_batch_reads_only [of "''now''" store_one_pending "''2025-05-01''"]
  by (simp add: load_processing_queue_def store_one_pending_def empty_store_def
      MIN_BATCH_SIZE_def)

text \<open>
  C3 as stated fails: with two items pending \<^verbatim>\<open>get_next_batch\<close> returns both, and the
  pending list still holds both afterwards, also after \<^verbatim>\<open>mark_as_batched\<close>; nothing is
  marked batched by \<^verbatim>\<open>get_next_batch\<close> itself.
\<close>

theorem get_next_batch_keeps_pending:
  "item_ids (fst (get_next_batch ''now'' store_two_pending)) = Inr [''a'', ''b'']
   \<and> pending_of (snd (get_next_batch ''now'' store_two_pending)) = [video_a, video_b]
   \<and> summary_status_file (snd (get_next_batch ''now'' store_two_pending))
       = Some (init_summary_status ''2025-05-01'')
   \<and> mark_as_batched ''2025-05-01'' (fst (get_next_batch ''now'' store_two_pending))
        (snd (get_next_batch ''now'' store_two_pending))
       = Inr (store_two_pending\<lparr>summary_status_file :=
                Some ((init_summary_status ''2025-05-01'')\<lparr>ss_batched := [''a'', ''b'']\<rparr>)\<rparr>)
   \<and> pending_of (store_two_pending\<lparr>summary_status_file :=
                Some ((init_summary_status ''2025-05-01'')\<lparr>ss_batched := [''a'', ''b'']\<rparr>)\<rparr>)
       = [video_a, video_b]"
  by (simp add: get_next_batch_def load_processing_queue_def store_two_pending_def
      empty_store_def MIN_BATCH_SIZE_def MAX_BATCH_SIZE_def video_a_def video_b_def
      pending_of_def mark_as_batched_def load_summary_status_def init_summary_status_def
      save_summary_status_def get_default_def)

subsection \<open>Enqueueing\<close>

lemma any_id_equals_False:
  "any_id_equals video_id pending = Inr False
     \<longleftrightarrow> list_all is_dict pending \<and> occurrences video_id pending = 0"
proof (induction pending)
  case Nil
  show ?case by (simp add: occurrences_def)
next
  case (Cons v pending)
  then show ?case by (cases v) (auto simp: occurrences_def)
qed

lemma occurrences_append:
  "occurrences video_id (xs @ ys) = occurrences video_id xs + occurrences video_id ys"
  by (simp add: occurrences_def)

text \<open>
  \<^verbatim>\<open>add_to_pending\<close> on every queue file and every item: it appends the item when the
  file is a dict, every pending entry is a dict, the item has an id and no pending entry
  has that id; in every other case it returns \<open>False\<close> and writes nothing.
\<close>

lemma add_to_pending_cases:
  "add_to_pending video s
     = (if is_queue_dict (processing_queue_file s) \<and> list_all is_dict (pending_of s)
           \<and> (case item_id video of
                 Inl e \<Rightarrow> False
               | Inr video_id \<Rightarrow> occurrences video_id (pending_of s) = 0)
        then (True,
              s\<lparr>processing_queue_file :=
                  (case processing_queue_file s of
                     QDict p rest \<Rightarrow> QDict (Some (pending_of s @ [video])) rest
                   | qfile \<Rightarrow> qfile)\<rparr>)
        else (False, s))"
proof (cases "processing_queue_file s")
  case (QDict p rest)
  then have p: "(case p of None \<Rightarrow> [] | Some xs \<Rightarrow> xs) = pending_of s"
    by (simp add: pending_of_def split: option.splits)
  show ?thesis
  proof (cases "item_id video")
    case (Inl e)
    then show ?thesis by (simp add: add_to_pending_def QDict)
  next
    case (Inr video_id)
    show ?thesis
    proof (cases "any_id_equals video_id (pending_of s)")
      case (Inl e)
      then have "\<not> (list_all is_dict (pending_of s) \<and> occurrences video_id (pending_of s) = 0)"
        using any_id_equals_False [of video_id "pending_of s"] by simp
      with Inl show ?thesis
        using Inr by (auto simp: add_to_pending_def QDict p)
    next
      case found: (Inr found)
      then have "found = False
          \<longleftrightarrow> list_all is_dict (pending_of s) \<and> occurrences video_id (pending_of s) = 0"
        using any_id_equals_False [of video_id "pending_of s"] by simp
      with found show ?thesis
        using Inr by (cases found) (auto simp: add_to_pending_def QDict p)
    qed
  qed
qed (simp_all add: add_to_pending_def)

text \<open>
  C4, as the code has it, for every queue file and every item. \<^verbatim>\<open>add_to_pending\<close>
  returns \<open>True\<close> exactly when the queue file is a dict, every pending entry is a dict,
  the item has an id and no pending entry has that id. Then the item is appended to the
  pending list, nothing else is written, a second call with the same item returns
  \<open>False\<close> and the id is in the pending list exactly once. When it returns \<open>False\<close>
  (also on a legacy flat array, on an undecodable file, and when the id is recorded as
  done or batched only) it writes nothing. The seen-videos file (done) and the status
  file (batched) are not consulted.
\<close>

theorem add_to_pending_checks_pending_only:
  "fst (add_to_pending video s)
     = (is_queue_dict (processing_queue_file s) \<and> list_all is_dict (pending_of s)
        \<and> (case item_id video of
              Inl e \<Rightarrow> False
            | Inr video_id \<Rightarrow> occurrences video_id (pending_of s) = 0))
   \<and> (fst (add_to_pending video s) \<longrightarrow>
        pending_of (snd (add_to_pending video s)) = pending_of s @ [video]
        \<and> snd (add_to_pending video s)
            = s\<lparr>processing_queue_file := processing_queue_file (snd (add_to_pending video s))\<rparr>
        \<and> add_to_pending video (snd (add_to_pending video s))
            = (False, snd (add_to_pending video s))
        \<and> (case item_id video of
              Inl e \<Rightarrow> False
            | Inr video_id \<Rightarrow>
                occurrences video_id (pending_of (snd (add_to_pending video s))) = 1))
   \<and> (\<not> fst (add_to_pending video s) \<longrightarrow> snd (add_to_pending video s) = s)
   \<and> add_to_pending video (s\<lparr>seen_videos_file := seen, summary_status_file := status\<rparr>)
       = (fst (add_to_pending video s),
          (snd (add_to_pending video s))\<lparr>seen_videos_file := seen,
                                           summary_status_file := status\<rparr>)"
proof -
  let ?ok = "is_queue_dict (processing_queue_file s) \<and> list_all is_dict (pending_of s)
        \<and> (case item_id video of
              Inl e \<Rightarrow> False
            | Inr video_id \<Rightarrow> occurrences video_id (pending_of s) = 0)"
  let ?s1 = "snd (add_to_pending video s)"
  let ?s' = "s\<lparr>seen_videos_file := seen, summary_status_file := status\<rparr>"
  have first: "fst (add_to_pending video s) = ?ok"
    by (simp add: add_to_pending_cases)
  have refused: "?s1 = s" if "\<not> fst (add_to_pending video s)"
  proof -
    from that first have "\<not> ?ok" by simp
    then have "add_to_pending video s = (False, s)"
      by (subst add_to_pending_cases) (rule if_not_P)
    then show ?thesis by simp
  qed
  have added: "pending_of ?s1 = pending_of s @ [video]
        \<and> ?s1 = s\<lparr>processing_queue_file := processing_queue_file ?s1\<rparr>
        \<and> add_to_pending video ?s1 = (False, ?s1)
        \<and> (case item_id video of
              Inl e \<Rightarrow> False
            | Inr video_id \<Rightarrow> occurrences video_id (pending_of ?s1) = 1)"
    if "fst (add_to_pending video s)"
  proof -
    from that first have ok: ?ok by simp
    then obtain p rest where qfile: "processing_queue_file s = QDict p rest"
      by (cases "processing_queue_file s") simp_all
    from ok obtain video_id where video_id: "item_id video = Inr video_id"
      and fresh: "occurrences video_id (pending_of s) = 0"
      by (cases "item_id video") simp_all
    then obtain item where video: "video = Video (Some video_id) item"
      by (cases "(video)" rule: item_id.cases) simp_all
    have s1: "?s1 = s\<lparr>processing_queue_file := QDict (Some (pending_of s @ [video])) rest\<rparr>"
      using ok by (simp add: add_to_pending_cases qfile)
    have pend: "pending_of ?s1 = pending_of s @ [video]"
      by (simp add: s1 pending_of_def)
    have once: "occurrences video_id (pending_of ?s1) = 1"
      using fresh by (simp add: pend occurrences_append) (simp add: occurrences_def video)
    have "add_to_pending video ?s1 = (False, ?s1)"
      using once video_id by (subst add_to_pending_cases) simp
    then show ?thesis
      using pend once video_id by (simp add: s1)
  qed
  have indep: "add_to_pending video ?s'
       = (fst (add_to_pending video s),
          ?s1\<lparr>seen_videos_file := seen, summary_status_file := status\<rparr>)"
  proof -
    have same: "processing_queue_file ?s' = processing_queue_file s"
      "pending_of ?s' = pending_of s"
      by (simp_all add: pending_of_def)
    show ?thesis
      unfolding add_to_pending_cases same by simp
  qed
  show ?thesis
    using first added refused indep by blast
qed

text \<open>
  The theorem at an item that is added (one entry pending), and at a legacy flat array
  and an undecodable file, where the same item is refused.
\<close>

theorem add_to_pending_checks_pending_only_witness:
  "fst (add_to_pending video_b store_one_pending)
   \<and> pending_of (snd (add_to_pending video_b store_one_pending)) = [video_a, video_b]
   \<and> add_to_pending video_b (snd (add_to_pending video_b store_one_pending))
       = (False, snd (add_to_pending video_b store_one_pending))
   \<and> occurrences ''b'' (pending_of (snd (add_to_pending video_b store_one_pending))) = 1
   \<and> \<not> fst (add_to_pending video_b store_legacy_queue)
   \<and> snd (add_to_pending video_b store_legacy_queue) = store_legacy_queue
   \<and> \<not> fst (add_to_pending video_b store_undecodable_queue)
   \<and> snd (add_to_pending video_b store_undecodable_queue) = store_undecodable_queue"
proof -
  have pend: "pending_of store_one_pending = [video_a]"
    by (simp add: store_one_pending_def pending_of_def)
  have qfile: "is_queue_dict (processing_queue_file store_one_pending)"
    by (simp add: store_one_pending_def)
  have legacy: "\<not> is_queue_dict (processing_queue_file store_legacy_queue)"
    by (simp add: store_legacy_queue_def)
  have undecodable: "\<not> is_queue_dict (processing_queue_file store_undecodable_queue)"
    by (simp add: store_undecodable_queue_def)
  show ?thesis
    using pend qfile legacy undecodable
      add_to_pending_checks_pending_only [of video_b store_one_pending None None]
      add_to_pending_checks_pending_only [of video_b store_legacy_queue None None]
      add_to_pending_checks_pending_only [of video_b store_undecodable_queue None None]
    by (simp add: video_b_def video_a_def occurrences_def)
qed

text \<open>
  C4 as stated fails: item \<open>a\<close> is recorded as done and as batched, the pending list is
  empty, and \<^verbatim>\<open>add_to_pending\<close> adds it and returns \<open>True\<close>.
\<close>

theorem add_to_pending_ignores_done:
  "map_option (\<lambda>done. done ''a'') (seen_videos_file store_a_done) = Some (Some entry_v1)
   \<and> map_option ss_batched (summary_status_file store_a_done) = Some [''a'']
   \<and> add_to_pending video_a store_a_done
       = (True, store_a_done\<lparr>processing_queue_file := QDict (Some [video_a]) []\<rparr>)"
  by (simp add: store_a_done_def empty_store_def add_to_pending_def video_a_def)


subsection \<open>The completion policy\<close>

lemma load_summary_status_date: "ss_date (fst (load_summary_status today s)) = today"
  by (simp add: load_summary_status_def init_summary_status_def split: option.splits)

lemma load_summary_status_stored:
  "summary_status_file s = Some status \<Longrightarrow> ss_date status = today \<Longrightarrow>
   load_summary_status today s = (status, s)"
  by (simp add: load_summary_status_def)

lemma set_append_new:
  "set (foldl (\<lambda>posted vid_id. if vid_id \<notin> set posted then posted @ [vid_id] else posted)
          posted video_ids)
   = set posted \<union> set video_ids"
  by (induction video_ids arbitrary: posted) auto

lemma update_seen_videos_status:
  "summary_status_file (update_seen_videos now video_ids status_type s) = summary_status_file s"
  by (simp add: update_seen_videos_def save_seen_videos_def)

lemma save_seen_videos_status:
  "load_summary_status today (save_seen_videos videos s)
     = (fst (load_summary_status today s), save_seen_videos videos (snd (load_summary_status today s)))"
  by (simp add: load_summary_status_def save_seen_videos_def split: option.splits)

lemma posted_after_mark_as_posted:
  "set (ss_posted (fst (load_summary_status today (mark_as_posted today now video_ids s))))
   = set (ss_posted (fst (load_summary_status today s))) \<union> set video_ids"
proof -
  obtain status s1 where load: "load_summary_status today s = (status, s1)"
    by (cases "load_summary_status today s")
  let ?posted = "foldl (\<lambda>posted vid_id. if vid_id \<notin> set posted then posted @ [vid_id] else posted)
                   (ss_posted status) video_ids"
  let ?status = "status\<lparr>ss_posted := ?posted\<rparr>"
  let ?s2 = "save_summary_status ?status s1"
  have date: "ss_date ?status = today"
    using load_summary_status_date [of today s] load by simp
  have result: "mark_as_posted today now video_ids s = update_seen_videos now video_ids ''posted'' ?s2"
    using load by (simp add: mark_as_posted_def)
  have "summary_status_file (update_seen_videos now video_ids ''posted'' ?s2) = Some ?status"
    by (simp add: update_seen_videos_status save_summary_status_def)
  then have "fst (load_summary_status today (mark_as_posted today now video_ids s)) = ?status"
    using load_summary_status_stored [OF _ date] result by simp
  then show ?thesis
    using load by (simp add: set_append_new)
qed

lemma fully_processed_iff:
  assumes "distinct (map fst attempts_by_video)"
    and "(video_id, attempted_platforms) \<in> set attempts_by_video"
  shows "video_id \<in> set (fully_processed platforms posted_by_platform attempts_by_video)
     \<longleftrightarrow> set platforms \<subseteq> attempted_platforms
          \<and> (\<exists>ids \<in> set (map snd posted_by_platform). video_id \<in> set ids)"
proof -
  have same: "a = attempted_platforms" if "(video_id, a) \<in> set attempts_by_video" for a
    using assms that by (meson eq_key_imp_eq_value)
  have "video_id \<in> set (fully_processed platforms posted_by_platform attempts_by_video)
     \<longleftrightarrow> (\<exists>a. (video_id, a) \<in> set attempts_by_video \<and> set platforms \<subseteq> a
              \<and> (\<exists>ids \<in> set (map snd posted_by_platform). video_id \<in> set ids))"
  proof -
    have "video_id \<in> set (fully_processed platforms posted_by_platform attempts_by_video)
       \<longleftrightarrow> (\<exists>a. (video_id, a) \<in> set attempts_by_video
                \<and> list_all (\<lambda>platform. platform \<in> a) platforms
                \<and> list_ex (\<lambda>ids. video_id \<in> set ids) (map snd posted_by_platform))"
      by (force simp: fully_processed_def)
    then show ?thesis
      by (simp add: list_all_iff list_ex_iff subset_eq)
  qed
  also have "\<dots> \<longleftrightarrow> set platforms \<subseteq> attempted_platforms
        \<and> (\<exists>ids \<in> set (map snd posted_by_platform). video_id \<in> set ids)"
    using assms(2) same by blast
  finally show ?thesis .
qed

lemma posted_after_update_queue_manager_status:
  "set (ss_posted (fst (load_summary_status today
          (update_queue_manager_status today now platforms posted_by_platform
             attempts_by_video s))))
   = set (ss_posted (fst (load_summary_status today s)))
     \<union> set (fully_processed platforms posted_by_platform attempts_by_video)"
proof -
  let ?seen = "foldl (record_posting now posted_by_platform) (load_seen_videos s) attempts_by_video"
  let ?s1 = "save_seen_videos ?seen s"
  let ?fully = "fully_processed platforms posted_by_platform attempts_by_video"
  let ?result = "update_queue_manager_status today now platforms posted_by_platform
                   attempts_by_video s"
  have s1: "ss_posted (fst (load_summary_status today ?s1))
      = ss_posted (fst (load_summary_status today s))"
    by (simp add: save_seen_videos_status)
  show ?thesis
  proof (cases "?fully = []")
    case True
    then have "?result = ?s1"
      by (simp add: update_queue_manager_status_def)
    with True s1 show ?thesis by simp
  next
    case False
    then have "?result = mark_as_posted today now ?fully ?s1"
      by (simp add: update_queue_manager_status_def)
    then show ?thesis
      using posted_after_mark_as_posted [of today now ?fully ?s1] s1 by simp
  qed
qed

text \<open>The Ledger record: the first loop, then the entries that \<^verbatim>\<open>mark_as_posted\<close> replaces.\<close>

lemma record_posting_other:
  "video_id' \<noteq> video_id \<Longrightarrow>
   record_posting now posted_by_platform seen_videos (video_id, attempted) video_id'
     = seen_videos video_id'"
  by (simp add: record_posting_def Let_def split: option.splits)

lemma successful_platforms_empty:
  "successful_platforms posted_by_platform video_id \<noteq> []
     \<longleftrightarrow> posted_somewhere posted_by_platform video_id"
  by (force simp: successful_platforms_def posted_somewhere_def filter_empty_conv list_ex_iff)

lemma record_posting_status:
  "map_option se_status
     (record_posting now posted_by_platform seen_videos (video_id, attempted) video_id)
   = map_option (\<lambda>entry. if posted_somewhere posted_by_platform video_id
                          then Some ''posted'' else se_status entry)
       (seen_videos video_id)"
  using successful_platforms_empty [of posted_by_platform video_id]
  by (simp add: record_posting_def Let_def split: option.splits)

lemma foldl_record_posting_other:
  "video_id \<notin> fst ` set attempts_by_video \<Longrightarrow>
   foldl (record_posting now posted_by_platform) seen_videos attempts_by_video video_id
     = seen_videos video_id"
proof (induction attempts_by_video arbitrary: seen_videos)
  case Nil
  show ?case by simp
next
  case (Cons attempt attempts_by_video)
  obtain k a where attempt: "attempt = (k, a)" by (cases attempt)
  with Cons.prems have "video_id \<noteq> k" and "video_id \<notin> fst ` set attempts_by_video"
    by auto
  then show ?case
    using Cons.IH [of "record_posting now posted_by_platform seen_videos (k, a)"]
    by (simp add: attempt record_posting_other)
qed

lemma foldl_record_posting_status:
  assumes "distinct (map fst attempts_by_video)"
    and "(video_id, attempted_platforms) \<in> set attempts_by_video"
  shows "map_option se_status
           (foldl (record_posting now posted_by_platform) seen_videos attempts_by_video video_id)
         = map_option (\<lambda>entry. if posted_somewhere posted_by_platform video_id
                                then Some ''posted'' else se_status entry)
             (seen_videos video_id)"
  using assms
proof (induction attempts_by_video arbitrary: seen_videos)
  case Nil
  then show ?case by simp
next
  case (Cons attempt attempts_by_video)
  obtain k a where attempt: "attempt = (k, a)" by (cases attempt)
  let ?seen = "record_posting now posted_by_platform seen_videos (k, a)"
  show ?case
  proof (cases "k = video_id")
    case True
    with Cons.prems attempt have "video_id \<notin> fst ` set attempts_by_video"
      by (simp add: image_iff)
    then have "foldl (record_posting now posted_by_platform) ?seen attempts_by_video video_id
        = ?seen video_id"
      by (rule foldl_record_posting_other)
    then show ?thesis
      using True by (simp add: attempt record_posting_status)
  next
    case False
    with Cons.prems attempt have "distinct (map fst attempts_by_video)"
      and "(video_id, attempted_platforms) \<in> set attempts_by_video"
      by auto
    from Cons.IH [OF this, of ?seen] show ?thesis
      using False by (simp add: attempt record_posting_other)
  qed
qed

lemma foldl_upd:
  "foldl (\<lambda>m k. m(k \<mapsto> f k)) m ks k' = (if k' \<in> set ks then Some (f k') else m k')"
  by (induction ks arbitrary: m) auto

lemma new_seen_entry_status: "se_status (new_seen_entry now video_id status_type s) = Some status_type"
  by (simp add: new_seen_entry_def basic_entry_def
      split: list.splits option.splits json.splits)

lemma load_seen_videos_saved: "load_seen_videos (save_seen_videos videos s) = videos"
  by (simp add: load_seen_videos_def save_seen_videos_def)

lemma load_seen_videos_update_seen_videos:
  "load_seen_videos (update_seen_videos now video_ids status_type s) video_id
     = (if video_id \<in> set video_ids then Some (new_seen_entry now video_id status_type s)
        else load_seen_videos s video_id)"
  unfolding update_seen_videos_def load_seen_videos_saved
  by (rule foldl_upd [of "\<lambda>video_id. new_seen_entry now video_id status_type s"])

lemma ledger_posted_mark_as_posted:
  "ledger_posted (mark_as_posted today now video_ids s) video_id
     \<longleftrightarrow> video_id \<in> set video_ids \<or> ledger_posted s video_id"
proof -
  obtain status s1 where load: "load_summary_status today s = (status, s1)"
    by (cases "load_summary_status today s")
  then have s1: "seen_videos_file s1 = seen_videos_file s"
    by (auto simp: load_summary_status_def split: option.splits if_splits)
  let ?s2 = "save_summary_status
               (status\<lparr>ss_posted :=
                  foldl (\<lambda>posted vid_id. if vid_id \<notin> set posted then posted @ [vid_id] else posted)
                    (ss_posted status) video_ids\<rparr>) s1"
  have seen: "load_seen_videos ?s2 = load_seen_videos s"
    using s1 by (simp add: load_seen_videos_def save_summary_status_def)
  have "mark_as_posted today now video_ids s = update_seen_videos now video_ids ''posted'' ?s2"
    using load by (simp add: mark_as_posted_def)
  then have "load_seen_videos (mark_as_posted today now video_ids s) video_id
      = (if video_id \<in> set video_ids then Some (new_seen_entry now video_id ''posted'' ?s2)
         else load_seen_videos s video_id)"
    by (simp only: load_seen_videos_update_seen_videos seen)
  then show ?thesis
    by (simp add: ledger_posted_def new_seen_entry_status)
qed

lemma ledger_posted_update_queue_manager_status:
  assumes "distinct (map fst attempts_by_video)"
    and "(video_id, attempted_platforms) \<in> set attempts_by_video"
  shows "ledger_posted (update_queue_manager_status today now platforms posted_by_platform
                          attempts_by_video s) video_id
     \<longleftrightarrow> video_id \<in> set (fully_processed platforms posted_by_platform attempts_by_video)
          \<or> (load_seen_videos s video_id \<noteq> None \<and> posted_somewhere posted_by_platform video_id)
          \<or> ledger_posted s video_id"
proof -
  let ?seen = "foldl (record_posting now posted_by_platform) (load_seen_videos s) attempts_by_video"
  let ?s1 = "save_seen_videos ?seen s"
  let ?fully = "fully_processed platforms posted_by_platform attempts_by_video"
  let ?result = "update_queue_manager_status today now platforms posted_by_platform
                   attempts_by_video s"
  have "load_seen_videos ?s1 = ?seen"
    by (rule load_seen_videos_saved)
  then have first: "ledger_posted ?s1 video_id
      \<longleftrightarrow> (load_seen_videos s video_id \<noteq> None \<and> posted_somewhere posted_by_platform video_id)
           \<or> ledger_posted s video_id"
    using foldl_record_posting_status [OF assms, of now posted_by_platform "load_seen_videos s"]
    by (cases "?seen video_id"; cases "load_seen_videos s video_id")
      (auto simp: ledger_posted_def)
  have "ledger_posted ?result video_id \<longleftrightarrow> video_id \<in> set ?fully \<or> ledger_posted ?s1 video_id"
  proof (cases "?fully = []")
    case True
    then show ?thesis by (simp add: update_queue_manager_status_def)
  next
    case False
    then have "?result = mark_as_posted today now ?fully ?s1"
      by (simp add: update_queue_manager_status_def)
    then show ?thesis by (simp add: ledger_posted_mark_as_posted)
  qed
  with first show ?thesis by simp
qed

text \<open>The artifact store is not written, so the summary files stay the same.\<close>

lemma summaries_dir_update_queue_manager_status:
  "summaries_dir (update_queue_manager_status today now platforms posted_by_platform
                    attempts_by_video s) = summaries_dir s"
  by (simp add: update_queue_manager_status_def Let_def mark_as_posted_def
      update_seen_videos_def save_seen_videos_def save_summary_status_def
      load_summary_status_def split: prod.splits option.splits)

lemma unposted_ids:
  "video_id \<in> fst ` set (fst (get_unposted_summaries today s))
     \<longleftrightarrow> video_id \<in> fst ` set (get_summary_files s)
          \<and> video_id \<notin> set (ss_posted (fst (load_summary_status today s)))"
  by (force simp: get_unposted_summaries_def Let_def split: prod.splits)

text \<open>
  C1, as the code has it. Take an item of the cycle (a key of \<open>attempts_by_video\<close>) that
  is not yet in the posted list of the status file (\<^verbatim>\<open>logs/summary_status.json\<close>), the
  list that \<^verbatim>\<open>get_unposted_summaries\<close> filters on. After \<^verbatim>\<open>_update_queue_manager_status\<close>:
  it is in that posted list if and only if every configured platform is among its
  attempted platforms and some platform's list of posted ids holds it; it is among the
  unposted summaries of the next call if and only if it was among them before and that
  condition fails, so an item attempted everywhere and posted nowhere is offered again.
  Its Ledger record does not follow that policy: it has the status \<^verbatim>\<open>"posted"\<close> if and
  only if it had it before, or the item was posted somewhere in the cycle and either
  had a Ledger record or was attempted on every platform.
\<close>

theorem completion_policy:
  assumes "distinct (map fst attempts_by_video)"
    and "(video_id, attempted_platforms) \<in> set attempts_by_video"
    and "video_id \<notin> set (ss_posted (fst (load_summary_status today s)))"
  shows "(video_id \<in> set (ss_posted (fst (load_summary_status today
            (update_queue_manager_status today now platforms posted_by_platform
               attempts_by_video s))))
          \<longleftrightarrow> set platforms \<subseteq> attempted_platforms
               \<and> posted_somewhere posted_by_platform video_id)
     \<and> (video_id \<in> fst ` set (fst (get_unposted_summaries today
            (update_queue_manager_status today now platforms posted_by_platform
               attempts_by_video s)))
          \<longleftrightarrow> video_id \<in> fst ` set (fst (get_unposted_summaries today s))
               \<and> \<not> (set platforms \<subseteq> attempted_platforms
                     \<and> posted_somewhere posted_by_platform video_id))
     \<and> (ledger_posted (update_queue_manager_status today now platforms posted_by_platform
                          attempts_by_video s) video_id
          \<longleftrightarrow> ledger_posted s video_id
               \<or> (posted_somewhere posted_by_platform video_id
                   \<and> (load_seen_videos s video_id \<noteq> None
                       \<or> set platforms \<subseteq> attempted_platforms)))"
proof -
  let ?result = "update_queue_manager_status today now platforms posted_by_platform
                   attempts_by_video s"
  let ?fully = "fully_processed platforms posted_by_platform attempts_by_video"
  have fully: "video_id \<in> set ?fully
      \<longleftrightarrow> set platforms \<subseteq> attempted_platforms \<and> posted_somewhere posted_by_platform video_id"
    using fully_processed_iff [OF assms(1,2)]
    by (simp add: posted_somewhere_def list_ex_iff)
  have posted: "video_id \<in> set (ss_posted (fst (load_summary_status today ?result)))
      \<longleftrightarrow> set platforms \<subseteq> attempted_platforms \<and> posted_somewhere posted_by_platform video_id"
    using assms(3) fully
    by (simp add: posted_after_update_queue_manager_status)
  have "get_summary_files ?result = get_summary_files s"
    by (simp add: get_summary_files_def summaries_dir_update_queue_manager_status)
  then have offered: "video_id \<in> fst ` set (fst (get_unposted_summaries today ?result))
      \<longleftrightarrow> video_id \<in> fst ` set (fst (get_unposted_summaries today s))
           \<and> \<not> (set platforms \<subseteq> attempted_platforms
                 \<and> posted_somewhere posted_by_platform video_id)"
    using posted assms(3) by (simp add: unposted_ids)
  have ledger: "ledger_posted ?result video_id
      \<longleftrightarrow> ledger_posted s video_id
           \<or> (posted_somewhere posted_by_platform video_id
               \<and> (load_seen_videos s video_id \<noteq> None \<or> set platforms \<subseteq> attempted_platforms))"
    using ledger_posted_update_queue_manager_status [OF assms(1,2)] fully by blast
  show ?thesis
    using posted offered ledger by blast
qed

text \<open>
  The theorem at item \<open>v1\<close>, attempted on all three platforms: posted to twitter alone it
  enters the posted list and is offered no more; posted nowhere it stays out of the
  posted list, is offered again, and its Ledger record is not marked.
\<close>

theorem completion_policy_witness:
  "distinct (map fst [(''v1'', {''twitter'', ''facebook'', ''telegram''})])
   \<and> (''v1'', {''twitter'', ''facebook'', ''telegram''})
       \<in> set [(''v1'', {''twitter'', ''facebook'', ''telegram''})]
   \<and> ''v1'' \<notin> set (ss_posted (fst (load_summary_status ''2025-05-01'' store_v1_completed)))
   \<and> ''v1'' \<in> fst ` set (fst (get_unposted_summaries ''2025-05-01'' store_v1_completed))
   \<and> ''v1'' \<in> set (ss_posted (fst (load_summary_status ''2025-05-01''
        (update_queue_manager_status ''2025-05-01'' ''2025-05-01T12:00:00'' PLATFORMS
           [(''twitter'', [''v1'']), (''facebook'', []), (''telegram'', [])]
           [(''v1'', {''twitter'', ''facebook'', ''telegram''})] store_v1_completed))))
   \<and> ''v1'' \<notin> fst ` set (fst (get_unposted_summaries ''2025-05-01''
        (update_queue_manager_status ''2025-05-01'' ''2025-05-01T12:00:00'' PLATFORMS
           [(''twitter'', [''v1'']), (''facebook'', []), (''telegram'', [])]
           [(''v1'', {''twitter'', ''facebook'', ''telegram''})] store_v1_completed)))
   \<and> ledger_posted
        (update_queue_manager_status ''2025-05-01'' ''2025-05-01T12:00:00'' PLATFORMS
           [(''twitter'', [''v1'']), (''facebook'', []), (''telegram'', [])]
           [(''v1'', {''twitter'', ''facebook'', ''telegram''})] store_v1_completed) ''v1''
   \<and> ''v1'' \<notin> set (ss_posted (fst (load_summary_status ''2025-05-01''
        (update_queue_manager_status ''2025-05-01'' ''2025-05-01T12:00:00'' PLATFORMS
           [(''twitter'', []), (''facebook'', []), (''telegram'', [])]
           [(''v1'', {''twitter'', ''facebook'', ''telegram''})] store_v1_completed))))
   \<and> ''v1'' \<in> fst ` set (fst (get_unposted_summaries ''2025-05-01''
        (update_queue_manager_status ''2025-05-01'' ''2025-05-01T12:00:00'' PLATFORMS
           [(''twitter'', []), (''facebook'', []), (''telegram'', [])]
           [(''v1'', {''twitter'', ''facebook'', ''telegram''})] store_v1_completed)))
   \<and> \<not> ledger_posted
        (update_queue_manager_status ''2025-05-01'' ''2025-05-01T12:00:00'' PLATFORMS
           [(''twitter'', []), (''facebook'', []), (''telegram'', [])]
           [(''v1'', {''twitter'', ''facebook'', ''telegram''})] store_v1_completed) ''v1''"
proof -
  let ?attempts = "[(''v1'', {''twitter'', ''facebook'', ''telegram''})]"
  have keys: "distinct (map fst ?attempts)" by simp
  have mem: "(''v1'', {''twitter'', ''facebook'', ''telegram''}) \<in> set ?attempts" by simp
  have unposted: "''v1'' \<notin> set (ss_posted (fst (load_summary_status ''2025-05-01'' store_v1_completed)))"
    by (simp add: store_v1_completed_def load_summary_status_def init_summary_status_def)
  have offered: "''v1'' \<in> fst ` set (fst (get_unposted_summaries ''2025-05-01'' store_v1_completed))"
    by (simp add: store_v1_completed_def load_summary_status_def init_summary_status_def
        get_unposted_summaries_def get_summary_files_def split_first_def endswith_def)
  have before: "\<not> ledger_posted store_v1_completed ''v1''"
    by (simp add: ledger_posted_def load_seen_videos_def store_v1_completed_def entry_v1_def)
  have entry: "load_seen_videos store_v1_completed ''v1'' \<noteq> None"
    by (simp add: load_seen_videos_def store_v1_completed_def)
  show ?thesis
    using keys mem unposted offered before entry
      completion_policy [OF keys mem unposted, of "''2025-05-01T12:00:00''" PLATFORMS
        "[(''twitter'', [''v1'']), (''facebook'', []), (''telegram'', [])]"]
      completion_policy [OF keys mem unposted, of "''2025-05-01T12:00:00''" PLATFORMS
        "[(''twitter'', []), (''facebook'', []), (''telegram'', [])]"]
    by (simp add: PLATFORMS_def posted_somewhere_def)
qed

text \<open>
  C1 as stated fails. In a cycle that is cut short after twitter (an exception while
  posting to facebook, telegram never attempted), item \<open>v1\<close> is posted to twitter. It
  was not attempted on every platform, and it stays out of the status file's posted
  list; but its Ledger record is marked \<^verbatim>\<open>"posted"\<close>, with \<open>posted_to = [twitter]\<close>.
\<close>

theorem ledger_posted_after_partial_coverage:
  "''telegram'' \<in> set PLATFORMS
   \<and> ''telegram'' \<notin> {''twitter'', ''facebook''}
   \<and> ledger_posted store_v1_completed ''v1'' = False
   \<and> ledger_posted
        (update_queue_manager_status ''2025-05-01'' ''2025-05-01T12:00:00'' PLATFORMS
           [(''twitter'', [''v1'']), (''facebook'', []), (''telegram'', [])]
           [(''v1'', {''twitter'', ''facebook''})] store_v1_completed) ''v1'' = True
   \<and> map_option se_posted_to
        (load_seen_videos
           (update_queue_manager_status ''2025-05-01'' ''2025-05-01T12:00:00'' PLATFORMS
              [(''twitter'', [''v1'']), (''facebook'', []), (''telegram'', [])]
              [(''v1'', {''twitter'', ''facebook''})] store_v1_completed) ''v1'')
       = Some (Some [''twitter''])
   \<and> ss_posted (fst (load_summary_status ''2025-05-01''
        (update_queue_manager_status ''2025-05-01'' ''2025-05-01T12:00:00'' PLATFORMS
           [(''twitter'', [''v1'']), (''facebook'', []), (''telegram'', [])]
           [(''v1'', {''twitter'', ''facebook''})] store_v1_completed))) = []"
  by (simp add: store_v1_completed_def ledger_posted_def
      update_queue_manager_status_def Let_def
      load_seen_videos_def save_seen_videos_def record_posting_def successful_platforms_def
      fully_processed_def PLATFORMS_def entry_v1_def
      load_summary_status_def init_summary_status_def)

subsection \<open>The destinations recorded for an item\<close>

text \<open>
  Within the first loop of \<^verbatim>\<open>_update_queue_manager_status\<close> the recorded destinations
  only grow, hold every platform posted to in this cycle, and hold none twice.
\<close>

lemma record_posting_grows:
  assumes "seen_videos video_id = Some entry"
  shows "\<exists>entry'. record_posting now posted_by_platform seen_videos (video_id, attempted) video_id
            = Some entry'
      \<and> (\<exists>posted_to. se_posted_to entry' = Some posted_to \<and> distinct posted_to
           \<and> set posted_to
              = set (case se_posted_to entry of None \<Rightarrow> [] | Some ps \<Rightarrow> ps)
                \<union> set (successful_platforms posted_by_platform video_id))"
  using assms by (simp add: record_posting_def Let_def)

text \<open>
  C7. After a first cycle that posted \<open>v1\<close> to twitter only, the entry of \<open>v1\<close> records
  \<open>posted_to = [twitter]\<close>. In the next cycle the item is posted to facebook and
  telegram; the first loop of \<^verbatim>\<open>_update_queue_manager_status\<close> computes all three
  destinations, and the call of \<^verbatim>\<open>mark_as_posted\<close> at its end replaces the entry by a
  fresh one: afterwards the entry has no \<open>posted_to\<close> at all.
\<close>

theorem posted_to_dropped_when_fully_processed:
  "map_option se_posted_to (load_seen_videos store_after_partial_cycle ''v1'')
     = Some (Some [''twitter''])
   \<and> map_option se_posted_to
       (foldl (record_posting ''2025-05-01T13:00:00''
                 [(''twitter'', []), (''facebook'', [''v1'']), (''telegram'', [''v1''])])
          (load_seen_videos store_after_partial_cycle)
          [(''v1'', {''twitter'', ''facebook'', ''telegram''})] ''v1'')
     = Some (Some [''twitter'', ''facebook'', ''telegram''])
   \<and> map_option se_posted_to
       (load_seen_videos
          (update_queue_manager_status ''2025-05-01'' ''2025-05-01T13:00:00'' PLATFORMS
             [(''twitter'', []), (''facebook'', [''v1'']), (''telegram'', [''v1''])]
             [(''v1'', {''twitter'', ''facebook'', ''telegram''})]
             store_after_partial_cycle) ''v1'')
     = Some None"
  by (simp add: store_after_partial_cycle_def store_v1_completed_def
      update_queue_manager_status_def update_daily_log_posted_def Let_def
      load_seen_videos_def save_seen_videos_def record_posting_def successful_platforms_def
      fully_processed_def PLATFORMS_def entry_v1_def mark_as_posted_def
      load_summary_status_def init_summary_status_def save_summary_status_def
      update_seen_videos_def new_seen_entry_def glob_summaries_def startswith_def
      endswith_def summary_v1_def get_default_def new_daily_log_def add_posted_def)

subsection \<open>Which record decides whether a destination is skipped\<close>

text \<open>
  Without the force flag an (item, platform) pair is skipped exactly when the daily log
  lists the item under the platform; the seen-videos file (the Ledger, with its
  \<open>posted_to\<close>) and the status file are not read for that decision.
\<close>

lemma should_post_to_platform_reads_daily_log:
  "should_post_to_platform s video_id platform False
     = (video_id \<notin> set (case map_of (get_posted_videos s) platform of
                          None \<Rightarrow> [] | Some ids \<Rightarrow> ids))
   \<and> should_post_to_platform (s\<lparr>seen_videos_file := seen, summary_status_file := status\<rparr>)
        video_id platform force_all
     = should_post_to_platform s video_id platform force_all"
  by (simp add: should_post_to_platform_def get_posted_videos_def)

text \<open>
  C2. On 2025-05-01 item \<open>v1\<close> is posted to twitter, the other two platforms being
  unreachable: the status file lists it as posted, the daily log lists it under
  twitter, its Ledger record says posted, and a check for twitter on that day says
  skip. On 2025-05-02 the scheduler starts the daily log afresh and
  \<^verbatim>\<open>get_unposted_summaries\<close> resets the status file: the item is among the unposted
  summaries again, and the check for twitter says post. The same after a cycle that was
  cut short after twitter, where the Ledger record holds \<open>posted_to = [twitter]\<close>: the
  next day twitter is attempted again, the record notwithstanding.
\<close>

theorem recorded_destination_attempted_next_day:
  "map_option ss_posted (summary_status_file store_after_full_cycle) = Some [''v1'']
   \<and> get_posted_videos store_after_full_cycle = [(''twitter'', [''v1''])]
   \<and> map_option se_status (load_seen_videos store_after_full_cycle ''v1'')
       = Some (Some ''posted'')
   \<and> should_post_to_platform store_after_full_cycle ''v1'' ''twitter'' False = False
   \<and> fst (get_unposted_summaries ''2025-05-02''
            (init_daily_log ''2025-05-02'' store_after_full_cycle))
       = [(''v1'', ''v1_Chan.json'')]
   \<and> should_post_to_platform
       (snd (get_unposted_summaries ''2025-05-02''
               (init_daily_log ''2025-05-02'' store_after_full_cycle)))
       ''v1'' ''twitter'' False = True
   \<and> map_option se_posted_to (load_seen_videos store_after_partial_cycle ''v1'')
       = Some (Some [''twitter''])
   \<and> get_posted_videos store_after_partial_cycle = [(''twitter'', [''v1''])]
   \<and> should_post_to_platform store_after_partial_cycle ''v1'' ''twitter'' False = False
   \<and> fst (get_unposted_summaries ''2025-05-02''
            (init_daily_log ''2025-05-02'' store_after_partial_cycle))
       = [(''v1'', ''v1_Chan.json'')]
   \<and> map_option se_posted_to
        (load_seen_videos
           (snd (get_unposted_summaries ''2025-05-02''
                   (init_daily_log ''2025-05-02'' store_after_partial_cycle))) ''v1'')
       = Some (Some [''twitter''])
   \<and> should_post_to_platform
       (snd (get_unposted_summaries ''2025-05-02''
               (init_daily_log ''2025-05-02'' store_after_partial_cycle)))
       ''v1'' ''twitter'' False = True"
  by (simp add: store_after_full_cycle_def store_after_partial_cycle_def store_v1_completed_def
      update_queue_manager_status_def update_daily_log_posted_def Let_def
      load_seen_videos_def save_seen_videos_def record_posting_def successful_platforms_def
      fully_processed_def PLATFORMS_def entry_v1_def mark_as_posted_def
      load_summary_status_def init_summary_status_def save_summary_status_def
      update_seen_videos_def new_seen_entry_def glob_summaries_def startswith_def
      endswith_def summary_v1_def get_default_def new_daily_log_def add_posted_def
      get_posted_videos_def should_post_to_platform_def init_daily_log_def
      get_unposted_summaries_def get_summary_files_def split_first_def)


subsection \<open>Validation\<close>

lemma missing_fields_dict:
  "missing_fields names (JObj d)
     = Inr (map (\<lambda>field. ''Missing field: '' @ field) (filter (\<lambda>field. map_of d field = None) names))"
  by (induction names) auto

lemma not_list_fields_dict:
  "not_list_fields names (JObj d)
     = Inr (map (\<lambda>field. ''Field '' @ field @ '' is not a list'')
              (filter (\<lambda>field. map_of d field \<noteq> None \<and> \<not> is_sequence_at d field) names))"
proof (induction names)
  case Nil
  show ?case by simp
next
  case (Cons field names)
  show ?case
  proof (cases "map_of d field")
    case None
    with Cons show ?thesis by simp
  next
    case (Some v)
    with Cons show ?thesis
      by (cases v) (simp_all add: is_sequence_at_def)
  qed
qed

text \<open>On a summary section that is a dict, no exception and the errors of the three loops.\<close>

lemma validate_summary_dict_section:
  assumes "map_of outer ''summary'' = Some (JObj sec)"
  shows "validate_summary (JObj outer) video_id
     = Inr (map (\<lambda>field. ''Missing field: '' @ field)
              (filter (\<lambda>field. map_of outer field = None) [''title'', ''podcaster''])
            @ map (\<lambda>field. ''Missing field: '' @ field)
                (filter (\<lambda>field. map_of sec field = None) REQUIRED_FIELDS)
            @ map (\<lambda>field. ''Field '' @ field @ '' is not a list'')
                (filter (\<lambda>field. map_of sec field \<noteq> None \<and> \<not> is_sequence_at sec field)
                   [''top_takeaways'', ''game_changing_ideas'', ''things_you_can_do'']))"
proof -
  have present: "py_in ''summary'' (JObj outer) = Inr True"
    using assms by simp
  have found: "py_getitem (JObj outer) ''summary'' = Inr (JObj sec)"
    using assms by simp
  show ?thesis
    by (simp only: validate_summary_def missing_fields_dict present found not_list_fields_dict
        sum.case bool.case)
qed

text \<open>
  A section that is not a dict never validates: with any of the fields missing there is
  an error, and with none missing the look-up of \<^verbatim>\<open>top_takeaways\<close> raises.
\<close>

lemma not_list_fields_raises:
  assumes "py_in field x = Inr True" and "\<forall>d. x \<noteq> JObj d"
  shows "not_list_fields (field # names) x = Inl TypeError"
  using assms by (cases x) simp_all

lemma missing_fields_none:
  "missing_fields names x = Inr [] \<Longrightarrow> field \<in> set names \<Longrightarrow> py_in field x = Inr True"
  by (induction names) (auto split: sum.splits if_splits)

lemma section_not_dict:
  assumes "\<forall>d. sec \<noteq> JObj d"
  shows "(case missing_fields REQUIRED_FIELDS sec of
            Inl e \<Rightarrow> Inl e
          | Inr errors2 \<Rightarrow>
              (case not_list_fields
                      [''top_takeaways'', ''game_changing_ideas'', ''things_you_can_do'']
                      sec of
                 Inl e \<Rightarrow> Inl e
               | Inr errors3 \<Rightarrow> Inr (errors1 @ errors2 @ errors3))) \<noteq> Inr []"
proof (cases "missing_fields REQUIRED_FIELDS sec")
  case (Inl e)
  then show ?thesis by simp
next
  case (Inr errors2)
  show ?thesis
  proof (cases "errors2 = []")
    case True
    with Inr have "py_in ''top_takeaways'' sec = Inr True"
      using missing_fields_none [of REQUIRED_FIELDS sec "''top_takeaways''"]
      by (simp add: REQUIRED_FIELDS_def)
    then have "not_list_fields
                 [''top_takeaways'', ''game_changing_ideas'', ''things_you_can_do''] sec
               = Inl TypeError"
      using assms by (rule not_list_fields_raises)
    with Inr show ?thesis by simp
  next
    case False
    with Inr show ?thesis by (simp split: sum.splits)
  qed
qed

lemma validate_summary_not_dict:
  assumes "\<forall>d. summary \<noteq> JObj d"
  shows "validate_summary summary video_id \<noteq> Inr []"
proof -
  have "py_getitem summary ''summary'' = Inl TypeError"
    using assms by (cases summary) simp_all
  then show ?thesis
    by (simp add: validate_summary_def split: sum.splits bool.splits)
qed

lemma validate_summary_dict_empty:
  assumes "map_of outer ''summary'' = Some (JObj sec)"
  shows "validate_summary (JObj outer) video_id = Inr [] \<longleftrightarrow>
           map_of outer ''title'' \<noteq> None \<and> map_of outer ''podcaster'' \<noteq> None
           \<and> list_all (\<lambda>field. map_of sec field \<noteq> None) REQUIRED_FIELDS
           \<and> list_all (\<lambda>field. map_of sec field = None \<or> is_sequence_at sec field)
               [''top_takeaways'', ''game_changing_ideas'', ''things_you_can_do'']"
  unfolding validate_summary_dict_section [OF assms]
  by (simp add: filter_empty_conv list_all_iff del: filter.simps)

lemma well_formed_summary_dict:
  assumes "map_of outer ''summary'' = Some (JObj sec)"
  shows "(map_of outer ''title'' \<noteq> None \<and> map_of outer ''podcaster'' \<noteq> None
           \<and> list_all (\<lambda>field. map_of sec field \<noteq> None) REQUIRED_FIELDS
           \<and> list_all (\<lambda>field. map_of sec field = None \<or> is_sequence_at sec field)
               [''top_takeaways'', ''game_changing_ideas'', ''things_you_can_do''])
         \<longleftrightarrow> well_formed_summary (JObj outer)"
  using assms
  by (simp add: well_formed_summary_def has_key_def REQUIRED_FIELDS_def del: not_None_eq
      cong: conj_cong)

text \<open>
  C5. \<^verbatim>\<open>validate_summary\<close> returns the empty list exactly on the records the
  specification calls valid. A record whose summary object lacks \<^verbatim>\<open>why_this_matters\<close>
  gets a non-empty list that names the field.
\<close>

theorem validate_summary_empty_iff:
  "(validate_summary r video_id = Inr [] \<longleftrightarrow> well_formed_summary r)
   \<and> (\<forall>outer sec. r = JObj outer \<and> map_of outer ''summary'' = Some (JObj sec)
          \<and> map_of sec ''why_this_matters'' = None \<longrightarrow>
        (\<exists>errors. validate_summary r video_id = Inr errors \<and> errors \<noteq> []
           \<and> ''Missing field: why_this_matters'' \<in> set errors))"
proof
  show "validate_summary r video_id = Inr [] \<longleftrightarrow> well_formed_summary r"
  proof (cases "\<exists>outer. r = JObj outer")
    case False
    then have "validate_summary r video_id \<noteq> Inr []"
      using validate_summary_not_dict by blast
    moreover have "\<not> well_formed_summary r"
      using False by (cases r) (simp_all add: well_formed_summary_def)
    ultimately show ?thesis by simp
  next
    case True
    then obtain outer where r: "r = JObj outer" by blast
    show ?thesis
    proof (cases "map_of outer ''summary''")
      case None
      then show ?thesis
        by (simp add: r validate_summary_def missing_fields_dict well_formed_summary_def)
    next
      case (Some sec)
      show ?thesis
      proof (cases "\<exists>d. sec = JObj d")
        case False
        have "validate_summary r video_id \<noteq> Inr []"
          using Some False section_not_dict [of sec]
          by (simp add: r validate_summary_def missing_fields_dict del: missing_fields.simps
              not_list_fields.simps)
        moreover have "\<not> well_formed_summary r"
          using Some False by (cases sec) (simp_all add: r well_formed_summary_def)
        ultimately show ?thesis by simp
      next
        case True
        then obtain d where "sec = JObj d" by blast
        with Some have summary: "map_of outer ''summary'' = Some (JObj d)" by simp
        show ?thesis
          unfolding r
          using validate_summary_dict_empty [OF summary, of video_id]
            well_formed_summary_dict [OF summary]
          by (rule trans)
      qed
    qed
  qed
next
  show "\<forall>outer sec. r = JObj outer \<and> map_of outer ''summary'' = Some (JObj sec)
          \<and> map_of sec ''why_this_matters'' = None \<longrightarrow>
        (\<exists>errors. validate_summary r video_id = Inr errors \<and> errors \<noteq> []
           \<and> ''Missing field: why_this_matters'' \<in> set errors)"
  proof (intro allI impI, elim conjE)
    fix outer sec
    assume r: "r = JObj outer" and summary: "map_of outer ''summary'' = Some (JObj sec)"
      and missing: "map_of sec ''why_this_matters'' = None"
    let ?e1 = "map (\<lambda>field. ''Missing field: '' @ field)
                 (filter (\<lambda>field. map_of outer field = None) [''title'', ''podcaster''])"
    let ?e2 = "map (\<lambda>field. ''Missing field: '' @ field)
                 (filter (\<lambda>field. map_of sec field = None) REQUIRED_FIELDS)"
    let ?e3 = "map (\<lambda>field. ''Field '' @ field @ '' is not a list'')
                 (filter (\<lambda>field. map_of sec field \<noteq> None \<and> \<not> is_sequence_at sec field)
                    [''top_takeaways'', ''game_changing_ideas'', ''things_you_can_do''])"
    have "''why_this_matters'' \<in> set (filter (\<lambda>field. map_of sec field = None) REQUIRED_FIELDS)"
      using missing by (simp add: REQUIRED_FIELDS_def)
    then have named: "''Missing field: '' @ ''why_this_matters'' \<in> set ?e2"
      unfolding set_map by (rule imageI)
    then have "''Missing field: why_this_matters'' \<in> set (?e1 @ ?e2 @ ?e3)"
      by (simp only: set_append Un_iff append.simps simp_thms)
    moreover from this have "?e1 @ ?e2 @ ?e3 \<noteq> []"
      by (metis empty_iff empty_set)
    moreover have "validate_summary r video_id = Inr (?e1 @ ?e2 @ ?e3)"
      unfolding r by (rule validate_summary_dict_section [OF summary])
    ultimately show "\<exists>errors. validate_summary r video_id = Inr errors \<and> errors \<noteq> []
           \<and> ''Missing field: why_this_matters'' \<in> set errors"
      by blast
  qed
qed

theorem validate_summary_empty_iff_witness:
  "well_formed_summary summary_complete
   \<and> validate_summary summary_complete ''v1'' = Inr []
   \<and> \<not> well_formed_summary summary_without_why
   \<and> validate_summary summary_without_why ''v1'' = Inr [''Missing field: why_this_matters'']"
proof -
  have valid: "well_formed_summary summary_complete"
    by (simp add: well_formed_summary_def summary_complete_def has_key_def is_sequence_at_def)
  have invalid: "\<not> well_formed_summary summary_without_why"
    by (simp add: well_formed_summary_def summary_without_why_def has_key_def)
  have named: "validate_summary summary_without_why ''v1'' = Inr [''Missing field: why_this_matters'']"
    by (simp add: validate_summary_def summary_without_why_def REQUIRED_FIELDS_def)
  show ?thesis
    using valid invalid named validate_summary_empty_iff [of summary_complete "''v1''"]
    by simp
qed


subsection \<open>Extraction\<close>

lemma brace_count_scan_outside:
  "CHR ''{'' \<notin> set pre \<Longrightarrow>
   brace_count_scan loads (pre @ rest) current brace_count False results
     = brace_count_scan loads rest current brace_count False results"
  by (induction pre) auto

lemma brace_count_scan_inside:
  "closes d body \<Longrightarrow> 1 \<le> d \<Longrightarrow>
   brace_count_scan loads (body @ rest) current (int d) True results
     = brace_count_scan loads rest [] 0 False (results @ decoded loads [current @ body])"
proof (induction body arbitrary: d current)
  case Nil
  then show ?case by simp
next
  case (Cons c body)
  show ?case
  proof (cases "c = CHR ''{''")
    case True
    then have "closes (Suc d) body" using Cons.prems by simp
    from Cons.IH [OF this, of "current @ [c]"] True show ?thesis
      by (simp add: add.commute)
  next
    case not_open: False
    show ?thesis
    proof (cases "c = CHR ''}''")
      case False
      then have "closes d body" using Cons.prems not_open by simp
      from Cons.IH [OF this Cons.prems(2), of "current @ [c]"] not_open False show ?thesis
        by simp
    next
      case True
      show ?thesis
      proof (cases "d = 1")
        case True
        then have "body = []" using Cons.prems \<open>c = CHR ''}''\<close> by simp
        then show ?thesis
          using True \<open>c = CHR ''}''\<close>
          by (simp add: decoded_def List.map_filter_simps split: option.splits)
      next
        case False
        then have "closes (d - 1) body" and "1 \<le> d - 1"
          using Cons.prems \<open>c = CHR ''}''\<close> by simp_all
        from Cons.IH [OF this, of "current @ [c]"] False Cons.prems(2) \<open>c = CHR ''}''\<close>
        show ?thesis
          by (simp add: of_nat_diff)
      qed
    qed
  qed
qed

lemma robust_scan_outside:
  "brace_free pre \<Longrightarrow>
   robust_scan loads (pre @ rest) current_obj 0 False results
     = robust_scan loads rest current_obj 0 False results"
  by (induction pre) (auto simp: brace_free_def Let_def)

lemma robust_scan_inside:
  "closes d body \<Longrightarrow> 1 \<le> d \<Longrightarrow>
   robust_scan loads (body @ rest) current_obj (int d) True results
     = robust_scan loads rest [] 0 False
         (results @ decoded loads [fix_common_json_errors (current_obj @ body)])"
proof (induction body arbitrary: d current_obj)
  case Nil
  then show ?case by simp
next
  case (Cons c body)
  show ?case
  proof (cases "c = CHR ''{''")
    case True
    then have "closes (Suc d) body" using Cons.prems by simp
    from Cons.IH [OF this, of "current_obj @ [c]"] True Cons.prems(2) show ?thesis
      by (simp add: add.commute Let_def)
  next
    case not_open: False
    show ?thesis
    proof (cases "c = CHR ''}''")
      case False
      then have "closes d body" using Cons.prems not_open by simp
      from Cons.IH [OF this Cons.prems(2), of "current_obj @ [c]"] not_open False show ?thesis
        by (simp add: Let_def)
    next
      case True
      show ?thesis
      proof (cases "d = 1")
        case True
        then have "body = []" using Cons.prems \<open>c = CHR ''}''\<close> by simp
        then show ?thesis
          using True \<open>c = CHR ''}''\<close>
          by (simp add: decoded_def List.map_filter_simps Let_def split: option.splits)
      next
        case False
        then have "closes (d - 1) body" and "1 \<le> d - 1"
          using Cons.prems \<open>c = CHR ''}''\<close> by simp_all
        from Cons.IH [OF this, of "current_obj @ [c]"] False Cons.prems(2) \<open>c = CHR ''}''\<close>
        show ?thesis
          by (simp add: of_nat_diff Let_def)
      qed
    qed
  qed
qed


lemma decoded_two: "decoded loads [a, b] = decoded loads [a] @ decoded loads [b]"
  by (simp add: decoded_def List.map_filter_simps split: option.splits)

text \<open>
  On a text made of two balanced spans with brace-free text around them, the brace
  count hands exactly the two spans to \<^verbatim>\<open>json.loads\<close>, and the robust parser hands it
  exactly the two repaired spans.
\<close>

lemma brace_count_scan_two_spans:
  assumes "brace_free pre" and "brace_free mid" and "brace_free post"
    and "closes 1 body1" and "closes 1 body2"
  shows "brace_count_scan loads
           (pre @ CHR ''{'' # body1 @ mid @ CHR ''{'' # body2 @ post) [] 0 False []
         = decoded loads [CHR ''{'' # body1, CHR ''{'' # body2]"
proof -
  have "brace_count_scan loads
          (pre @ CHR ''{'' # body1 @ mid @ CHR ''{'' # body2 @ post) [] 0 False []
      = brace_count_scan loads (body1 @ mid @ CHR ''{'' # body2 @ post) ''{'' (int 1) True []"
    using assms(1) by (simp add: brace_count_scan_outside brace_free_def)
  also have "\<dots> = brace_count_scan loads (mid @ CHR ''{'' # body2 @ post) [] 0 False
                     ([] @ decoded loads [''{'' @ body1])"
    using assms(4) by (rule brace_count_scan_inside) simp
  also have "\<dots> = brace_count_scan loads (body2 @ post) ''{'' (int 1) True
                     (decoded loads [CHR ''{'' # body1])"
    using assms(2) by (simp add: brace_count_scan_outside brace_free_def)
  also have "\<dots> = brace_count_scan loads post [] 0 False
                     (decoded loads [CHR ''{'' # body1] @ decoded loads [''{'' @ body2])"
    using assms(5) by (rule brace_count_scan_inside) simp
  also have "\<dots> = decoded loads [CHR ''{'' # body1] @ decoded loads [CHR ''{'' # body2]"
    using assms(3) brace_count_scan_outside [of post loads "[]"]
    by (simp add: brace_free_def)
  finally show ?thesis
    by (simp only: decoded_two)
qed

lemma parse_robust_json_two_spans:
  assumes "brace_free pre" and "brace_free mid" and "brace_free post"
    and "closes 1 body1" and "closes 1 body2"
  shows "parse_robust_json loads (pre @ CHR ''{'' # body1 @ mid @ CHR ''{'' # body2 @ post)
         = decoded loads [fix_common_json_errors (CHR ''{'' # body1),
                          fix_common_json_errors (CHR ''{'' # body2)]"
proof -
  have start: "robust_scan loads (CHR ''{'' # rest) current_obj 0 False results
      = robust_scan loads rest ''{'' (int 1) True results" for rest current_obj results
    by (simp add: Let_def)
  have "parse_robust_json loads (pre @ CHR ''{'' # body1 @ mid @ CHR ''{'' # body2 @ post)
      = robust_scan loads (body1 @ mid @ CHR ''{'' # body2 @ post) ''{'' (int 1) True []"
    using assms(1) by (simp only: parse_robust_json_def robust_scan_outside start)
  also have "\<dots> = robust_scan loads (mid @ CHR ''{'' # body2 @ post) [] 0 False
                     ([] @ decoded loads [fix_common_json_errors (''{'' @ body1)])"
    using assms(4) by (rule robust_scan_inside) simp
  also have "\<dots> = robust_scan loads (body2 @ post) ''{'' (int 1) True
                     (decoded loads [fix_common_json_errors (CHR ''{'' # body1)])"
    using assms(2) by (simp only: robust_scan_outside start append.simps)
  also have "\<dots> = robust_scan loads post [] 0 False
                     (decoded loads [fix_common_json_errors (CHR ''{'' # body1)]
                      @ decoded loads [fix_common_json_errors (''{'' @ body2)])"
    using assms(5) by (rule robust_scan_inside) simp
  also have "\<dots> = decoded loads [fix_common_json_errors (CHR ''{'' # body1)]
                   @ decoded loads [fix_common_json_errors (CHR ''{'' # body2)]"
    using assms(3) robust_scan_outside [of post loads "[]"]
    by simp
  finally show ?thesis
    by (simp only: decoded_two)
qed

text \<open>
  Where the scenario of C6 works out. The text has no delimiter and two balanced spans;
  the first decodes as it stands, the second does not; both decode after the repairs.
  Then \<^verbatim>\<open>extract_json_objects\<close> returns the first object alone (the robust parser is
  not run there, since the brace count found something), and for a batch of two
  \<^verbatim>\<open>summarize_batch\<close> takes the two objects of the robust parser instead.
\<close>

lemma two_spans_recovered:
  assumes "\<not> contains (pre @ CHR ''{'' # body1 @ mid @ CHR ''{'' # body2 @ post) SENTINEL"
    and "brace_free pre" and "brace_free mid" and "brace_free post"
    and "closes 1 body1" and "closes 1 body2"
    and "loads (CHR ''{'' # body1) = Some obj1"
    and "loads (CHR ''{'' # body2) = None"
    and "loads (fix_common_json_errors (CHR ''{'' # body1)) = Some fixed1"
    and "loads (fix_common_json_errors (CHR ''{'' # body2)) = Some fixed2"
  shows "extract_json_objects loads (pre @ CHR ''{'' # body1 @ mid @ CHR ''{'' # body2 @ post)
           = [obj1]"
    and "extract_for_batch loads 2 (pre @ CHR ''{'' # body1 @ mid @ CHR ''{'' # body2 @ post)
           = [fixed1, fixed2]"
proof -
  let ?text = "pre @ CHR ''{'' # body1 @ mid @ CHR ''{'' # body2 @ post"
  have scan: "brace_count_scan loads ?text [] 0 False [] = [obj1]"
    using brace_count_scan_two_spans [OF assms(2-6), of loads] assms(7,8)
    by (simp add: decoded_def List.map_filter_simps)
  have robust: "parse_robust_json loads ?text = [fixed1, fixed2]"
    using parse_robust_json_two_spans [OF assms(2-6), of loads] assms(9,10)
    by (simp add: decoded_def List.map_filter_simps)
  show plain: "extract_json_objects loads ?text = [obj1]"
    using assms(1) scan by (simp add: extract_json_objects_def)
  show "extract_for_batch loads 2 ?text = [fixed1, fixed2]"
    by (simp add: extract_for_batch_def plain robust)
qed

text \<open>
  C6. The response \<open>two_span_text\<close> has no delimiter and two balanced spans, the second
  with a comma before its closing brace. The brace count decodes the first span only.
  The robust parser repairs both spans: the second now decodes, but the first is
  rewritten inside its string (quotes around \<open>b\<close>) and no longer does. For a batch of
  two the extraction ends with one candidate.
\<close>

theorem repair_breaks_well_formed_span:
  \<open>contains two_span_text SENTINEL = False
   \<and> extract_json_objects json_loads_sample two_span_text = [JObj [(''t'', JStr ''a, b: c'')]]
   \<and> fix_common_json_errors ''{"t": "a, b: c"}'' = ''{"t": "a,"b": c"}''
   \<and> fix_common_json_errors ''{"b": 2,}'' = ''{"b": 2}''
   \<and> parse_robust_json json_loads_sample two_span_text = [JObj [(''b'', JNum 2)]]
   \<and> extract_for_batch json_loads_sample 2 two_span_text = [JObj [(''t'', JStr ''a, b: c'')]]\<close>
  by (simp add: two_span_text_def json_loads_sample_def extract_for_batch_def
      extract_json_objects_def parse_robust_json_def fix_common_json_errors_def SENTINEL_def
      startswith_def isspace_def is_word_char_def isalnum_def Let_def)


subsection \<open>The corrective call\<close>

declare call_claude_fix.simps [simp del]

lemma call_claude_fix_fails:
  assumes "attempt_fails loads (api retry_count)"
  shows "call_claude_fix loads api raw_text retry_count st
     = (if retry_count < MAX_RETRIES - 1
        then call_claude_fix loads api raw_text (retry_count + 1)
               (st\<lparr>fixer_attempts := fixer_attempts st + 1,
                   trace := trace st @ [Request, Sleep RETRY_DELAY]\<rparr>)
        else (JNull, st\<lparr>fixer_attempts := fixer_attempts st + 1,
                         trace := trace st @ [Request]\<rparr>))"
  using assms
  by (subst call_claude_fix.simps)
    (auto simp: attempt_fails_def Let_def split: api_result.splits option.splits)

lemma call_claude_fix_succeeds:
  assumes "\<not> attempt_fails loads (api retry_count)"
  shows "\<exists>result counted.
           call_claude_fix loads api raw_text retry_count st
             = (result, st\<lparr>fixer_attempts := fixer_attempts st + 1,
                            fixer_successes := fixer_successes st + counted,
                            trace := trace st @ [Request]\<rparr>)"
proof (cases "api retry_count")
  case Raises
  with assms show ?thesis by (simp add: attempt_fails_def)
next
  case (Response status_code body)
  with assms obtain fixed_text where ok: "status_code = 200" and body: "body = Some fixed_text"
    and found: "loads fixed_text \<noteq> None \<or> extract_json_objects loads fixed_text \<noteq> []"
    by (auto simp: attempt_fails_def split: option.splits)
  show ?thesis
  proof (cases "loads fixed_text")
    case (Some fixed_json)
    have "call_claude_fix loads api raw_text retry_count st
        = (fixed_json, st\<lparr>fixer_attempts := fixer_attempts st + 1,
                           fixer_successes := fixer_successes st + 1,
                           trace := trace st @ [Request]\<rparr>)"
      by (subst call_claude_fix.simps) (simp add: Response ok body Some Let_def)
    then show ?thesis by blast
  next
    case None
    with found obtain obj rest where "extract_json_objects loads fixed_text = obj # rest"
      by (cases "extract_json_objects loads fixed_text") auto
    then have "call_claude_fix loads api raw_text retry_count st
        = (obj, st\<lparr>fixer_attempts := fixer_attempts st + 1,
                     fixer_successes := fixer_successes st + 0,
                     trace := trace st @ [Request]\<rparr>)"
      by (subst call_claude_fix.simps) (simp add: Response ok body None Let_def)
    then show ?thesis by blast
  qed
qed

lemma attempts_trace_Suc:
  "0 < n \<Longrightarrow> [Request, Sleep RETRY_DELAY] @ attempts_trace n = attempts_trace (Suc n)"
  by (cases n) (simp_all add: attempts_trace_def)

text \<open>
  From any \<^verbatim>\<open>retry_count\<close> below the bound the call makes between one and
  \<open>MAX_RETRIES - retry_count\<close> attempts, with a sleep between consecutive ones; the
  induction is on the attempts left.
\<close>

lemma call_claude_fix_attempts:
  assumes "left = MAX_RETRIES - retry_count" and "retry_count < MAX_RETRIES"
  shows "\<exists>result st' n.
           call_claude_fix loads api raw_text retry_count st = (result, st')
           \<and> 0 < n \<and> n \<le> left
           \<and> fixer_attempts st' = fixer_attempts st + n
           \<and> trace st' = trace st @ attempts_trace n
           \<and> (list_all (\<lambda>k. attempt_fails loads (api k)) [retry_count..<MAX_RETRIES]
                \<longrightarrow> result = JNull \<and> n = left)"
  using assms
proof (induction left arbitrary: retry_count st)
  case 0
  then show ?case by simp
next
  case (Suc left)
  show ?case
  proof (cases "attempt_fails loads (api retry_count)")
    case False
    from False call_claude_fix_succeeds [of loads api retry_count raw_text st]
    obtain result counted where
      "call_claude_fix loads api raw_text retry_count st
         = (result, st\<lparr>fixer_attempts := fixer_attempts st + 1,
                        fixer_successes := fixer_successes st + counted,
                        trace := trace st @ [Request]\<rparr>)"
      by blast
    moreover have "\<not> list_all (\<lambda>k. attempt_fails loads (api k)) [retry_count..<MAX_RETRIES]"
      using False Suc.prems(2) by (simp add: list_all_iff) force
    ultimately show ?thesis
      by (intro exI [of _ result] exI [of _ "Suc 0"]
          exI [of _ "st\<lparr>fixer_attempts := fixer_attempts st + 1,
                       fixer_successes := fixer_successes st + counted,
                       trace := trace st @ [Request]\<rparr>"])
        (simp add: attempts_trace_def)
  next
    case True
    show ?thesis
    proof (cases "retry_count < MAX_RETRIES - 1")
      case False
      with Suc.prems have last: "retry_count = MAX_RETRIES - 1" and left: "left = 0"
        by simp_all
      have "call_claude_fix loads api raw_text retry_count st
          = (JNull, st\<lparr>fixer_attempts := fixer_attempts st + 1,
                        trace := trace st @ [Request]\<rparr>)"
        using False True by (simp add: call_claude_fix_fails [of loads api retry_count])
      then show ?thesis
        by (intro exI [of _ JNull] exI [of _ "Suc 0"]
            exI [of _ "st\<lparr>fixer_attempts := fixer_attempts st + 1,
                         trace := trace st @ [Request]\<rparr>"])
          (simp add: attempts_trace_def left)
    next
      case more: True
      let ?st = "st\<lparr>fixer_attempts := fixer_attempts st + 1,
                     trace := trace st @ [Request, Sleep RETRY_DELAY]\<rparr>"
      have step: "call_claude_fix loads api raw_text retry_count st
          = call_claude_fix loads api raw_text (retry_count + 1) ?st"
        using more True by (simp add: call_claude_fix_fails [of loads api retry_count])
      have "left = MAX_RETRIES - (retry_count + 1)" and "retry_count + 1 < MAX_RETRIES"
        using Suc.prems more by simp_all
      from Suc.IH [OF this, of ?st]
      obtain result st' n where
        run: "call_claude_fix loads api raw_text (retry_count + 1) ?st = (result, st')"
        and n: "0 < n" "n \<le> left"
        and counted: "fixer_attempts st' = fixer_attempts ?st + n"
        and traced: "trace st' = trace ?st @ attempts_trace n"
        and failing: "list_all (\<lambda>k. attempt_fails loads (api k)) [retry_count + 1..<MAX_RETRIES]
                \<longrightarrow> result = JNull \<and> n = left"
        by blast
      have "trace st' = trace st @ attempts_trace (Suc n)"
        using traced attempts_trace_Suc [OF n(1)] by simp
      moreover have "list_all (\<lambda>k. attempt_fails loads (api k)) [retry_count..<MAX_RETRIES]
                \<longrightarrow> result = JNull \<and> Suc n = Suc left"
        using failing Suc.prems(2) by (simp add: upt_conv_Cons)
      ultimately show ?thesis
        using run n counted unfolding step
        by (intro exI [of _ result] exI [of _ st'] exI [of _ "Suc n"]) simp
    qed
  qed
qed

text \<open>
  C8. Called with \<^verbatim>\<open>retry_count = 0\<close>, \<^verbatim>\<open>call_claude_fix\<close> returns (the function is total)
  after at least one and at most \<open>MAX_RETRIES = 3\<close> attempts, having slept \<open>RETRY_DELAY\<close>
  seconds between consecutive attempts and at no other time; and when every attempt
  fails it returns \<^verbatim>\<open>None\<close> after exactly three attempts.
\<close>

theorem call_claude_fix_bounded_retry:
  "\<exists>result st' n.
     call_claude_fix loads api raw_text 0 st = (result, st')
     \<and> 0 < n \<and> n \<le> MAX_RETRIES \<and> MAX_RETRIES = 3
     \<and> fixer_attempts st' = fixer_attempts st + n
     \<and> trace st' = trace st @ attempts_trace n
     \<and> (list_all (\<lambda>k. attempt_fails loads (api k)) [0..<MAX_RETRIES]
          \<longrightarrow> result = JNull \<and> n = MAX_RETRIES)"
  using call_claude_fix_attempts [of MAX_RETRIES 0 loads api raw_text st]
  by (simp add: MAX_RETRIES_def)

theorem call_claude_fix_bounded_retry_witness:
  "list_all (\<lambda>k. attempt_fails json_loads_sample (api_always_down k)) [0..<MAX_RETRIES]
   \<and> call_claude_fix json_loads_sample api_always_down ''{'' 0 fix_state_0
       = (JNull, \<lparr> fixer_attempts = 3, fixer_successes = 0,
                   trace = [Request, Sleep 5, Request, Sleep 5, Request] \<rparr>)
   \<and> call_claude_fix json_loads_sample api_up_second ''{'' 0 fix_state_0
       = (JObj [(''b'', JNum 2)],
          \<lparr> fixer_attempts = 2, fixer_successes = 1, trace = [Request, Sleep 5, Request] \<rparr>)"
proof -
  have failing:
    "list_all (\<lambda>k. attempt_fails json_loads_sample (api_always_down k)) [0..<MAX_RETRIES]"
    by (simp add: attempt_fails_def api_always_down_def list_all_iff)
  have down: "call_claude_fix json_loads_sample api_always_down ''{'' 0 fix_state_0
       = (JNull, \<lparr> fixer_attempts = 3, fixer_successes = 0,
                   trace = [Request, Sleep 5, Request, Sleep 5, Request] \<rparr>)"
    by (simp add: call_claude_fix.simps api_always_down_def fix_state_0_def MAX_RETRIES_def
        RETRY_DELAY_def)
  have up: "call_claude_fix json_loads_sample api_up_second ''{'' 0 fix_state_0
       = (JObj [(''b'', JNum 2)],
          \<lparr> fixer_attempts = 2, fixer_successes = 1, trace = [Request, Sleep 5, Request] \<rparr>)"
    by (simp add: call_claude_fix.simps api_up_second_def fix_state_0_def MAX_RETRIES_def
        RETRY_DELAY_def json_loads_sample_def)
  show ?thesis
    using failing down up
      call_claude_fix_bounded_retry [of json_loads_sample api_always_down "''{''" fix_state_0]
    by simp
qed

end
